theory Spec2Isabelle
  imports Main "HOL-Library.Word" "HOL-Library.Char_ord" "HOL-Library.List_Lexorder"
    "HOL-Library.Multiset"
begin

section \<open>Strings\<close>

text \<open>
  Go strings are byte sequences; they are modelled as \<open>string\<close> (a list of 8-bit
  characters). With \<open>Char_ord\<close> and \<open>List_Lexorder\<close> the order on \<open>string\<close> is the
  bytewise lexicographic order, which is what Go's \<open><\<close> and \<open>></\<close> on strings compute.

  \<open>strings.ToUpper\<close> and \<open>strings.ToLower\<close> are modelled on ASCII letters and leave every
  other byte as it is. The sources only compare their results with the ASCII words
  \<open>TCP\<close>, \<open>UDP\<close>, \<open>tcp\<close>, \<open>udp\<close> and \<open>true\<close>, and no code point outside ASCII has one of the
  letters of these words as its upper or lower case, so the comparisons agree with Go's.
\<close>

definition upper_char :: "char \<Rightarrow> char" where
  "upper_char c =
     (let n = (of_char c :: nat) in if 97 \<le> n \<and> n \<le> 122 then char_of (n - 32) else c)"

definition lower_char :: "char \<Rightarrow> char" where
  "lower_char c =
     (let n = (of_char c :: nat) in if 65 \<le> n \<and> n \<le> 90 then char_of (n + 32) else c)"

definition ToUpper :: "string \<Rightarrow> string" where
  "ToUpper s = map upper_char s"

definition ToLower :: "string \<Rightarrow> string" where
  "ToLower s = map lower_char s"

text \<open>\<open>strings.HasPrefix\<close> and \<open>strings.Contains\<close>: a contiguous occurrence of \<open>sub\<close>.\<close>

definition HasPrefix :: "string \<Rightarrow> string \<Rightarrow> bool" where
  "HasPrefix s pre = (take (length pre) s = pre)"

fun Contains :: "string \<Rightarrow> string \<Rightarrow> bool" where
  "Contains [] sub = (sub = [])"
| "Contains (c # s) sub = (HasPrefix (c # s) sub \<or> Contains s sub)"

text \<open>Equality of two strings up to the case of ASCII letters, position by position.\<close>

definition equal_fold :: "string \<Rightarrow> string \<Rightarrow> bool" where
  "equal_fold s t = list_all2 (\<lambda>a b. lower_char a = lower_char b) s t"

section \<open>The gateway device and the log of effects\<close>

text \<open>
  \<open>net.IP\<close> is a byte slice. The device actions below carry the address itself where the
  source passes \<open>InternalIP.String()\<close>; \<open>net.ParseIP\<close> is a parameter of the functions that
  call it.
\<close>

type_synonym IP = "8 word list"

text \<open>
  A handle of the goupnp library for one WANIPConnection service of a discovered device
  (\<open>internetgateway1.WANIPConnection1\<close> or \<open>internetgateway2.WANIPConnection1\<close>); the sources
  read its \<open>Location\<close> only.
\<close>

datatype wan_client = WANIPConnection1 (Location: string)

text \<open>
  The control actions of the device, with the arguments in the order of the library calls:
  remote host, external port, protocol, internal port, internal client, enabled,
  description, lease duration.
\<close>

datatype action =
    AddPortMappingAction wan_client string "16 word" string "16 word" IP bool string "32 word"
  | DeletePortMappingAction wan_client string "16 word" string
  | GetGenericPortMappingEntryAction wan_client "16 word"
  | GetExternalIPAddressAction wan_client

text \<open>
  A Go \<open>error\<close> returned by a library call. \<open>message\<close> is what \<open>err.Error()\<close> returns;
  \<open>fault_code\<close> is the structured UPnP error code when the error is a SOAP fault of the
  device (714 is NoSuchEntryInArray, 713 is SpecifiedArrayIndexInvalid), and \<open>None\<close> for
  a transport error.
\<close>

record device_error =
  fault_code :: "int option"
  message :: string

text \<open>The values \<open>GetGenericPortMappingEntry\<close> returns besides the error.\<close>

record mapping_entry =
  entryRemoteHost :: string
  entryExternalPort :: "16 word"
  entryProtocol :: string
  entryInternalPort :: "16 word"
  entryInternalClient :: string
  entryEnabled :: bool
  entryDescription :: string
  entryLeaseDuration :: "32 word"

text \<open>
  The device and the network are outside the program. A device is any function from the
  actions it has received so far and the current action to a reply, one function per kind
  of action.
\<close>

record device =
  replyAdd :: "action list \<Rightarrow> action \<Rightarrow> device_error option"
  replyDelete :: "action list \<Rightarrow> action \<Rightarrow> device_error option"
  replyEntry :: "action list \<Rightarrow> action \<Rightarrow> device_error + mapping_entry"
  replyExternalIP :: "action list \<Rightarrow> action \<Rightarrow> device_error + string"

text \<open>
  The effects of the program that the properties speak about, in the order they happen:
  actions sent to the device, and calls of the controller's \<open>onStatusChange\<close> callback with
  a namespace and a name. Logger output and Kubernetes event recording
  (\<open>client.Errorf\<close>, \<open>client.Infof\<close>) are not modelled.
\<close>

datatype event = Dev action | StatusChange string string

fun sent :: "event list \<Rightarrow> action list" where
  "sent [] = []"
| "sent (Dev a # es) = a # sent es"
| "sent (StatusChange ns n # es) = sent es"

section \<open>The protocol client (internal/upnp/client.go)\<close>

record PortMapping =
  ExternalPort :: int
  InternalPort :: int
  InternalIP :: IP
  Protocol :: string
  Description :: string
  Duration :: int

record IGDClient =
  client1 :: "wan_client option"
  client2 :: "wan_client option"
  version :: int
  externalIP :: "IP option"

text \<open>One constructor for each \<open>fmt.Errorf\<close> of the client, with the values it formats.\<close>

datatype client_error =
    ErrDiscoverClients string
  | ErrNoDevicesFound
  | ErrDiscover client_error
  | ErrNoClient
  | ErrGetExternalIP string
  | ErrInvalidExternalIP string
  | ErrNilMapping
  | ErrInvalidProtocol string
  | ErrAddPortMapping string
  | ErrDeletePortMapping string
  | ErrGetEntry nat string

text \<open>
  Every method selects the library handle by the same chain: version 2 with a non-nil
  \<open>client2\<close>, else version 1 with a non-nil \<open>client1\<close>, else the error
  \<open>no IGD client available\<close>.
\<close>

definition selected :: "IGDClient \<Rightarrow> wan_client option" where
  "selected c =
     (if version c = 2 \<and> client2 c \<noteq> None then client2 c
      else if version c = 1 \<and> client1 c \<noteq> None then client1 c
      else None)"

definition IsAvailable :: "IGDClient \<Rightarrow> bool" where
  "IsAvailable c = ((version c = 1 \<and> client1 c \<noteq> None) \<or> (version c = 2 \<and> client2 c \<noteq> None))"

text \<open>
  \<open>AddPortMapping\<close>: the argument is a pointer, \<open>None\<close> is nil. The result is the error
  (\<open>None\<close> is nil) and the log with the action appended when one was sent.
\<close>

definition addAction :: "wan_client \<Rightarrow> PortMapping \<Rightarrow> action" where
  "addAction k m =
     AddPortMappingAction k [] (word_of_int (ExternalPort m)) (ToUpper (Protocol m))
       (word_of_int (InternalPort m)) (InternalIP m) True (Description m)
       (word_of_int (Duration m))"

definition AddPortMapping ::
  "device \<Rightarrow> IGDClient \<Rightarrow> event list \<Rightarrow> PortMapping option \<Rightarrow> client_error option \<times> event list"
where
  "AddPortMapping dev c log mapping =
     (case mapping of
        None \<Rightarrow> (Some ErrNilMapping, log)
      | Some m \<Rightarrow>
          let protocol = ToUpper (Protocol m) in
          if protocol \<noteq> ''TCP'' \<and> protocol \<noteq> ''UDP'' then (Some (ErrInvalidProtocol (Protocol m)), log)
          else
            (case selected c of
               None \<Rightarrow> (Some ErrNoClient, log)
             | Some k \<Rightarrow>
                 (case replyAdd dev (sent log) (addAction k m) of
                    Some err \<Rightarrow> (Some (ErrAddPortMapping (message err)), log @ [Dev (addAction k m)])
                  | None \<Rightarrow> (None, log @ [Dev (addAction k m)]))))"

definition deleteAction :: "wan_client \<Rightarrow> int \<Rightarrow> string \<Rightarrow> action" where
  "deleteAction k externalPort protocol =
     DeletePortMappingAction k [] (word_of_int externalPort) (ToUpper protocol)"

text \<open>The test made on a failed delete and on a failed entry query (both orders of the
  disjunction are the same predicate).\<close>

definition missingEntry :: "device_error \<Rightarrow> bool" where
  "missingEntry err =
     (Contains (message err) ''NoSuchEntryInArray'' \<or>
      Contains (message err) ''SpecifiedArrayIndexInvalid'')"

definition DeletePortMapping ::
  "device \<Rightarrow> IGDClient \<Rightarrow> event list \<Rightarrow> int \<Rightarrow> string \<Rightarrow> client_error option \<times> event list"
where
  "DeletePortMapping dev c log externalPort protocol0 =
     (let protocol = ToUpper protocol0 in
      if protocol \<noteq> ''TCP'' \<and> protocol \<noteq> ''UDP'' then (Some (ErrInvalidProtocol protocol), log)
      else
        (case selected c of
           None \<Rightarrow> (Some ErrNoClient, log)
         | Some k \<Rightarrow>
             (case replyDelete dev (sent log) (deleteAction k externalPort protocol0) of
                Some err \<Rightarrow>
                  if missingEntry err then (None, log @ [Dev (deleteAction k externalPort protocol0)])
                  else (Some (ErrDeletePortMapping (message err)),
                        log @ [Dev (deleteAction k externalPort protocol0)])
              | None \<Rightarrow> (None, log @ [Dev (deleteAction k externalPort protocol0)]))))"

text \<open>
  \<open>GetPortMappings\<close>: the loop over \<open>index\<close>, with the mappings collected so far. Every
  error of the entry query leaves the loop: the two recognised texts end the list, any
  other error is returned. The loop also ends once \<open>index\<close>, after its increment, is above
  1000.
\<close>

definition entryAction :: "wan_client \<Rightarrow> nat \<Rightarrow> action" where
  "entryAction k index = GetGenericPortMappingEntryAction k (of_nat index)"

definition collect :: "(string \<Rightarrow> IP option) \<Rightarrow> mapping_entry \<Rightarrow> PortMapping list \<Rightarrow> PortMapping list" where
  "collect ParseIP e mappings =
     (if entryEnabled e then
        (case ParseIP (entryInternalClient e) of
           None \<Rightarrow> mappings
         | Some ip \<Rightarrow>
             mappings @
               [\<lparr>ExternalPort = uint (entryExternalPort e), InternalPort = uint (entryInternalPort e),
                 InternalIP = ip, Protocol = entryProtocol e, Description = entryDescription e,
                 Duration = uint (entryLeaseDuration e)\<rparr>])
      else mappings)"

function GetPortMappings_loop ::
  "device \<Rightarrow> (string \<Rightarrow> IP option) \<Rightarrow> IGDClient \<Rightarrow> nat \<Rightarrow> PortMapping list \<Rightarrow> event list \<Rightarrow>
     (client_error + PortMapping list) \<times> event list"
where
  "GetPortMappings_loop dev ParseIP c index mappings log =
     (case selected c of
        None \<Rightarrow> (Inl ErrNoClient, log)
      | Some k \<Rightarrow>
          (case replyEntry dev (sent log) (entryAction k index) of
             Inl err \<Rightarrow>
               if missingEntry err then (Inr mappings, log @ [Dev (entryAction k index)])
               else (Inl (ErrGetEntry index (message err)), log @ [Dev (entryAction k index)])
           | Inr e \<Rightarrow>
               if index + 1 > 1000
               then (Inr (collect ParseIP e mappings), log @ [Dev (entryAction k index)])
               else GetPortMappings_loop dev ParseIP c (index + 1) (collect ParseIP e mappings)
                      (log @ [Dev (entryAction k index)])))"
  by pat_completeness auto
termination
  by (relation "measure (\<lambda>(dev, ParseIP, c, index, mappings, log). 1001 - index)") auto

declare GetPortMappings_loop.simps [simp del]

definition GetPortMappings ::
  "device \<Rightarrow> (string \<Rightarrow> IP option) \<Rightarrow> IGDClient \<Rightarrow> event list \<Rightarrow>
     (client_error + PortMapping list) \<times> event list"
where
  "GetPortMappings dev ParseIP c log = GetPortMappings_loop dev ParseIP c 0 [] log"

text \<open>
  Discovery. The library calls \<open>NewWANIPConnection1Clients\<close> of the two packages are
  outside the program; what one of them returned is the argument: an error text, or the
  handles in the order the library delivered them.
\<close>

datatype discovery = DiscoveryFailed string | Discovered "wan_client list"

definition discoverIGD2 :: "discovery \<Rightarrow> IGDClient \<Rightarrow> client_error option \<times> IGDClient" where
  "discoverIGD2 found c =
     (case found of
        DiscoveryFailed err \<Rightarrow> (Some (ErrDiscoverClients err), c)
      | Discovered clients \<Rightarrow>
          (case clients of
             [] \<Rightarrow> (Some ErrNoDevicesFound, c)
           | first # others \<Rightarrow> (None, c\<lparr>client2 := Some first, version := 2\<rparr>)))"

definition discoverIGD1 :: "discovery \<Rightarrow> IGDClient \<Rightarrow> client_error option \<times> IGDClient" where
  "discoverIGD1 found c =
     (case found of
        DiscoveryFailed err \<Rightarrow> (Some (ErrDiscoverClients err), c)
      | Discovered clients \<Rightarrow>
          (case clients of
             [] \<Rightarrow> (Some ErrNoDevicesFound, c)
           | first # others \<Rightarrow> (None, c\<lparr>client1 := Some first, version := 1\<rparr>)))"

definition updateExternalIP ::
  "device \<Rightarrow> (string \<Rightarrow> IP option) \<Rightarrow> IGDClient \<Rightarrow> event list \<Rightarrow>
     client_error option \<times> IGDClient \<times> event list"
where
  "updateExternalIP dev ParseIP c log =
     (case selected c of
        None \<Rightarrow> (Some ErrNoClient, c, log)
      | Some k \<Rightarrow>
          (case replyExternalIP dev (sent log) (GetExternalIPAddressAction k) of
             Inl err \<Rightarrow> (Some (ErrGetExternalIP (message err)), c, log @ [Dev (GetExternalIPAddressAction k)])
           | Inr text \<Rightarrow>
               (case ParseIP text of
                  None \<Rightarrow> (Some (ErrInvalidExternalIP text), c\<lparr>externalIP := None\<rparr>,
                           log @ [Dev (GetExternalIPAddressAction k)])
                | Some ip \<Rightarrow> (None, c\<lparr>externalIP := Some ip\<rparr>,
                             log @ [Dev (GetExternalIPAddressAction k)]))))"

text \<open>
  \<open>New\<close>: version 2 first, version 1 when that failed; the version-1 library call is made
  only then. A failure of the external address query is logged and not returned.
\<close>

definition New ::
  "device \<Rightarrow> (string \<Rightarrow> IP option) \<Rightarrow> discovery \<Rightarrow> discovery \<Rightarrow> event list \<Rightarrow>
     (client_error + IGDClient) \<times> event list"
where
  "New dev ParseIP found2 found1 log =
     (let client = \<lparr>client1 = None, client2 = None, version = 0, externalIP = None\<rparr> in
      case discoverIGD2 found2 client of
        (None, c2) \<Rightarrow>
          (case updateExternalIP dev ParseIP c2 log of (e, c', log') \<Rightarrow> (Inr c', log'))
      | (Some err2, c2) \<Rightarrow>
          (case discoverIGD1 found1 c2 of
             (Some err1, c1) \<Rightarrow> (Inl (ErrDiscover err1), log)
           | (None, c1) \<Rightarrow>
               (case updateExternalIP dev ParseIP c1 log of (e, c', log') \<Rightarrow> (Inr c', log'))))"

section \<open>The controller (speaker/upnp_controller.go)\<close>

subsection \<open>Library functions the controller calls\<close>

text \<open>\<open>%d\<close> of \<open>fmt.Sprintf\<close>: decimal digits, with a minus sign for a negative number.\<close>

function decimal :: "int \<Rightarrow> string" where
  "decimal n = (if n < 10 then [char_of (48 + n)] else decimal (n div 10) @ [char_of (48 + n mod 10)])"
  by pat_completeness auto
termination
  by (relation "measure nat") auto

declare decimal.simps [simp del]

definition formatInt :: "int \<Rightarrow> string" where
  "formatInt i = (if i < 0 then CHR ''-'' # decimal (- i) else decimal i)"

text \<open>
  \<open>strconv.Atoi\<close> on a 64-bit platform: an optional sign, then at least one decimal digit
  and nothing else; a value outside the range of \<open>int\<close> is an error (\<open>None\<close>).
\<close>

definition isDigit :: "char \<Rightarrow> bool" where
  "isDigit ch = (48 \<le> (of_char ch :: nat) \<and> (of_char ch :: nat) \<le> 57)"

definition digitsValue :: "string \<Rightarrow> int" where
  "digitsValue ds = foldl (\<lambda>n ch. n * 10 + (int (of_char ch) - 48)) 0 ds"

definition Atoi :: "string \<Rightarrow> int option" where
  "Atoi s =
     (case s of
        [] \<Rightarrow> None
      | ch # rest \<Rightarrow>
          let negative = (ch = CHR ''-'');
              ds = (if ch = CHR ''-'' \<or> ch = CHR ''+'' then rest else s)
          in if ds = [] \<or> \<not> list_all isDigit ds then None
             else
               let n = (if negative then - digitsValue ds else digitsValue ds)
               in if - (2 ^ 63) \<le> n \<and> n < 2 ^ 63 then Some n else None)"

text \<open>
  \<open>strings.Split(key, "/")\<close> and \<open>cache.SplitMetaNamespaceKey\<close> of client-go: one part is
  a name without namespace, two parts are namespace and name, anything else is the
  error \<open>unexpected key format\<close>.
\<close>

fun Split :: "string \<Rightarrow> char \<Rightarrow> string list" where
  "Split [] sep = [[]]"
| "Split (ch # s) sep =
     (if ch = sep then [] # Split s sep
      else (case Split s sep of [] \<Rightarrow> [[ch]] | part # parts \<Rightarrow> (ch # part) # parts))"

datatype controller_error = ErrKeyFormat string

definition SplitMetaNamespaceKey :: "string \<Rightarrow> controller_error + string \<times> string" where
  "SplitMetaNamespaceKey key =
     (case Split key CHR ''/'' of
        [name] \<Rightarrow> Inr ([], name)
      | [namespace, name] \<Rightarrow> Inr (namespace, name)
      | _ \<Rightarrow> Inl (ErrKeyFormat key))"

subsection \<open>Kubernetes and configuration objects\<close>

text \<open>
  The fields of \<open>v1.Service\<close>, \<open>v1.ServicePort\<close> and \<open>v1.Node\<close> that the controller reads.
  A nil map is \<open>None\<close>. \<open>Port\<close> is an \<open>int32\<close>.
\<close>

record ServicePort =
  PortProtocol :: string
  Port :: "32 word"

record Service =
  Name :: string
  Namespace :: string
  Annotations :: "(string \<rightharpoonup> string) option"
  Ports :: "ServicePort list"

text \<open>A node condition is its type and its status; \<open>v1.NodeReady\<close> is \<open>Ready\<close> and
  \<open>v1.ConditionTrue\<close> is \<open>True\<close>.\<close>

record Node =
  Conditions :: "(string \<times> string) list"
  Labels :: "(string \<rightharpoonup> string) option"

text \<open>
  Modelled from the spec: the declaration of \<open>config.Pool\<close> and of its UPnP advertisements
  (internal/config) is not among the sources. An advertisement is enabled or not and has
  a set of allowed node names; the controller reads it as a Go map from node name to
  \<open>bool\<close>. \<open>Nodes\<close> lists the entries of that map in the order in which the \<open>range\<close> loop of
  this run visits them (Go leaves the order open), so the keys of the list are distinct.
\<close>

record UPnPAdvertisement =
  Enabled :: bool
  Nodes :: "(string \<times> bool) list"

record Pool =
  PoolName :: string
  UPnPAdvertisements :: "UPnPAdvertisement list"

record upnpController =
  myNode :: string
  client :: IGDClient
  mappings :: "string \<rightharpoonup> PortMapping list"

definition UPnPEnabledAnnotation :: string where
  "UPnPEnabledAnnotation = ''metallb.universe.tf/upnp-enabled''"

definition UPnPDescriptionAnnotation :: string where
  "UPnPDescriptionAnnotation = ''metallb.universe.tf/upnp-description''"

definition UPnPDurationAnnotation :: string where
  "UPnPDurationAnnotation = ''metallb.universe.tf/upnp-duration''"

definition DefaultUPnPDescription :: string where
  "DefaultUPnPDescription = ''MetalLB LoadBalancer''"

definition DefaultUPnPDuration :: int where
  "DefaultUPnPDuration = 0"

subsection \<open>Helper methods\<close>

definition isUPnPEnabled :: "Service \<Rightarrow> bool" where
  "isUPnPEnabled svc =
     (case Annotations svc of
        None \<Rightarrow> False
      | Some annotations \<Rightarrow>
          (case annotations UPnPEnabledAnnotation of
             None \<Rightarrow> False
           | Some enabled \<Rightarrow> ToLower enabled = ''true''))"

definition poolSupportsUPnP :: "Pool \<Rightarrow> bool" where
  "poolSupportsUPnP pool = (length (UPnPAdvertisements pool) > 0)"

text \<open>Indexing the Go map: a missing key gives \<open>false\<close>.\<close>

definition nodeAllowed :: "UPnPAdvertisement \<Rightarrow> string \<Rightarrow> bool" where
  "nodeAllowed adv name = (case map_of (Nodes adv) name of None \<Rightarrow> False | Some b \<Rightarrow> b)"

fun nodeMatchesAdvertisements :: "string \<Rightarrow> UPnPAdvertisement list \<Rightarrow> bool" where
  "nodeMatchesAdvertisements me [] = False"
| "nodeMatchesAdvertisements me (adv # advs) =
     (if \<not> Enabled adv then nodeMatchesAdvertisements me advs
      else if nodeAllowed adv me then True
      else nodeMatchesAdvertisements me advs)"

definition nodeMatchesUPnPAdvertisements :: "upnpController \<Rightarrow> Pool \<Rightarrow> bool" where
  "nodeMatchesUPnPAdvertisements c pool = nodeMatchesAdvertisements (myNode c) (UPnPAdvertisements pool)"

fun isNodeReady_loop :: "(string \<times> string) list \<Rightarrow> bool" where
  "isNodeReady_loop [] = False"
| "isNodeReady_loop ((ctype, status) # conditions) =
     (if ctype = ''Ready'' then status = ''True'' else isNodeReady_loop conditions)"

definition isNodeReady :: "Node \<Rightarrow> bool" where
  "isNodeReady node = isNodeReady_loop (Conditions node)"

definition isNodeExcludedFromBalancers :: "Node \<Rightarrow> bool" where
  "isNodeExcludedFromBalancers node =
     (case Labels node of
        None \<Rightarrow> False
      | Some labels \<Rightarrow> labels ''node.kubernetes.io/exclude-from-external-load-balancers'' \<noteq> None)"

definition getPortMappingDescription :: "Service \<Rightarrow> ServicePort \<Rightarrow> string" where
  "getPortMappingDescription svc port =
     (let suffix = '' ('' @ Name svc @ '':'' @ formatInt (sint (Port port)) @ '')'' in
      case Annotations svc of
        None \<Rightarrow> DefaultUPnPDescription @ suffix
      | Some annotations \<Rightarrow>
          (case annotations UPnPDescriptionAnnotation of
             None \<Rightarrow> DefaultUPnPDescription @ suffix
           | Some desc \<Rightarrow> if desc \<noteq> [] then desc @ suffix else DefaultUPnPDescription @ suffix))"

definition getPortMappingDuration :: "Service \<Rightarrow> int" where
  "getPortMappingDuration svc =
     (case Annotations svc of
        None \<Rightarrow> DefaultUPnPDuration
      | Some annotations \<Rightarrow>
          (case annotations UPnPDurationAnnotation of
             None \<Rightarrow> DefaultUPnPDuration
           | Some durationStr \<Rightarrow>
               (case Atoi durationStr of
                  None \<Rightarrow> DefaultUPnPDuration
                | Some duration \<Rightarrow> if duration \<ge> 0 then duration else DefaultUPnPDuration)))"

subsection \<open>Election\<close>

text \<open>
  \<open>getEligibleNodes\<close>: the names collected over the enabled advertisements, with
  duplicates when several advertisements allow a node, then the in-place exchange sort
  of the source, loop by loop.
\<close>

fun eligibleIn :: "(string \<rightharpoonup> Node) \<Rightarrow> (string \<times> bool) list \<Rightarrow> string list \<Rightarrow> string list" where
  "eligibleIn nodes [] eligible = eligible"
| "eligibleIn nodes ((nodeName, allowed) # rest) eligible =
     (case nodes nodeName of
        None \<Rightarrow> eligibleIn nodes rest eligible
      | Some node \<Rightarrow>
          if isNodeReady node \<and> \<not> isNodeExcludedFromBalancers node
          then eligibleIn nodes rest (eligible @ [nodeName])
          else eligibleIn nodes rest eligible)"

fun eligibleOver :: "(string \<rightharpoonup> Node) \<Rightarrow> UPnPAdvertisement list \<Rightarrow> string list \<Rightarrow> string list" where
  "eligibleOver nodes [] eligible = eligible"
| "eligibleOver nodes (adv # advs) eligible =
     (if \<not> Enabled adv then eligibleOver nodes advs eligible
      else eligibleOver nodes advs (eligibleIn nodes (Nodes adv) eligible))"

function sortInner :: "nat \<Rightarrow> nat \<Rightarrow> string list \<Rightarrow> string list" where
  "sortInner i j eligible =
     (if j < length eligible
      then sortInner i (j + 1)
             (if eligible ! i > eligible ! j
              then eligible[i := eligible ! j, j := eligible ! i]
              else eligible)
      else eligible)"
  by pat_completeness auto
termination
  by (relation "measure (\<lambda>(i, j, eligible). length eligible - j)") auto

declare sortInner.simps [simp del]

lemma length_sortInner: "length (sortInner i j eligible) = length eligible"
proof (induction i j eligible rule: sortInner.induct)
  case (1 i j eligible)
  show ?case
  proof (cases "j < length eligible")
    case True
    with "1.IH" show ?thesis by (subst sortInner.simps) simp
  next
    case False
    then show ?thesis by (subst sortInner.simps) simp
  qed
qed

function sortOuter :: "nat \<Rightarrow> string list \<Rightarrow> string list" where
  "sortOuter i eligible =
     (if i + 1 < length eligible then sortOuter (i + 1) (sortInner i (i + 1) eligible)
      else eligible)"
  by pat_completeness auto
termination sortOuter
  by (relation "measure (\<lambda>(i, eligible). length eligible - i)") (auto simp: length_sortInner)

declare sortOuter.simps [simp del]

definition getEligibleNodes :: "Pool \<Rightarrow> (string \<rightharpoonup> Node) \<Rightarrow> string list" where
  "getEligibleNodes pool nodes =
     (let eligible = eligibleOver nodes (UPnPAdvertisements pool) []
      in sortOuter 0 eligible)"

text \<open>
  \<open>ShouldAnnounce\<close> returns the string \<open>notOwner\<close> or the empty string (owner).
  \<open>activeEndpointExists\<close> is a function of the speaker that is not among the sources; its
  result on the endpoint slices of the call is the argument \<open>activeEndpoints\<close>.
\<close>

definition ShouldAnnounce ::
  "upnpController \<Rightarrow> Pool \<Rightarrow> Service \<Rightarrow> bool \<Rightarrow> (string \<rightharpoonup> Node) \<Rightarrow> string" where
  "ShouldAnnounce c pool svc activeEndpoints nodes =
     (if \<not> isUPnPEnabled svc then ''notOwner''
      else if \<not> poolSupportsUPnP pool then ''notOwner''
      else if \<not> activeEndpoints then ''notOwner''
      else if \<not> nodeMatchesUPnPAdvertisements c pool then ''notOwner''
      else
        (case getEligibleNodes pool nodes of
           [] \<Rightarrow> ''notOwner''
         | first # others \<Rightarrow> if first \<noteq> myNode c then ''notOwner'' else []))"

subsection \<open>Applying and removing the mappings of a service\<close>

fun deleteEach :: "device \<Rightarrow> IGDClient \<Rightarrow> PortMapping list \<Rightarrow> event list \<Rightarrow> event list" where
  "deleteEach dev cl [] log = log"
| "deleteEach dev cl (mapping # rest) log =
     (case DeletePortMapping dev cl log (ExternalPort mapping) (Protocol mapping) of
        (err, log') \<Rightarrow> deleteEach dev cl rest log')"

definition deleteExistingMappings ::
  "device \<Rightarrow> upnpController \<Rightarrow> event list \<Rightarrow> string \<Rightarrow>
     controller_error option \<times> upnpController \<times> event list"
where
  "deleteExistingMappings dev c log name =
     (case mappings c name of
        None \<Rightarrow> (None, c, log)
      | Some recorded \<Rightarrow>
          (None, c\<lparr>mappings := (mappings c)(name := None)\<rparr>, deleteEach dev (client c) recorded log))"

definition newMapping :: "Service \<Rightarrow> IP \<Rightarrow> ServicePort \<Rightarrow> PortMapping" where
  "newMapping svc lbIP port =
     \<lparr>ExternalPort = sint (Port port), InternalPort = sint (Port port), InternalIP = lbIP,
      Protocol = ToLower (PortProtocol port), Description = getPortMappingDescription svc port,
      Duration = getPortMappingDuration svc\<rparr>"

fun addPorts ::
  "device \<Rightarrow> IGDClient \<Rightarrow> Service \<Rightarrow> IP \<Rightarrow> ServicePort list \<Rightarrow> PortMapping list \<Rightarrow> event list \<Rightarrow>
     PortMapping list \<times> event list"
where
  "addPorts dev cl svc lbIP [] newMappings log = (newMappings, log)"
| "addPorts dev cl svc lbIP (port # ports) newMappings log =
     (if Port port = 0 then addPorts dev cl svc lbIP ports newMappings log
      else if ToLower (PortProtocol port) \<noteq> ''tcp'' \<and> ToLower (PortProtocol port) \<noteq> ''udp''
      then addPorts dev cl svc lbIP ports newMappings log
      else
        (case AddPortMapping dev cl log (Some (newMapping svc lbIP port)) of
           (Some err, log') \<Rightarrow> addPorts dev cl svc lbIP ports newMappings log'
         | (None, log') \<Rightarrow>
             addPorts dev cl svc lbIP ports (newMappings @ [newMapping svc lbIP port]) log'))"

fun addAll ::
  "device \<Rightarrow> IGDClient \<Rightarrow> Service \<Rightarrow> IP list \<Rightarrow> PortMapping list \<Rightarrow> event list \<Rightarrow>
     PortMapping list \<times> event list"
where
  "addAll dev cl svc [] newMappings log = (newMappings, log)"
| "addAll dev cl svc (lbIP # lbIPs) newMappings log =
     (case addPorts dev cl svc lbIP (Ports svc) newMappings log of
        (newMappings', log') \<Rightarrow> addAll dev cl svc lbIPs newMappings' log')"

text \<open>
  \<open>SetBalancer\<close> and \<open>DeleteBalancer\<close> return the error (always nil for \<open>SetBalancer\<close>), the
  controller and the log. The pool argument of \<open>SetBalancer\<close> is not read by it.
\<close>

definition SetBalancer ::
  "device \<Rightarrow> upnpController \<Rightarrow> event list \<Rightarrow> string \<Rightarrow> IP list \<Rightarrow> Service \<Rightarrow>
     controller_error option \<times> upnpController \<times> event list"
where
  "SetBalancer dev c log name lbIPs svc =
     (if \<not> isUPnPEnabled svc then (None, c, log)
      else
        (case deleteExistingMappings dev c log name of
           (err, c1, log1) \<Rightarrow>
             (case addAll dev (client c1) svc lbIPs [] log1 of
                (newMappings, log2) \<Rightarrow>
                  if length newMappings > 0
                  then (None, c1\<lparr>mappings := (mappings c1)(name \<mapsto> newMappings)\<rparr>,
                        log2 @ [StatusChange (Namespace svc) (Name svc)])
                  else (None, c1\<lparr>mappings := (mappings c1)(name \<mapsto> newMappings)\<rparr>, log2))))"

definition DeleteBalancer ::
  "device \<Rightarrow> upnpController \<Rightarrow> event list \<Rightarrow> string \<Rightarrow> string \<Rightarrow>
     controller_error option \<times> upnpController \<times> event list"
where
  "DeleteBalancer dev c log name reason =
     (case deleteExistingMappings dev c log name of
        (Some err, c1, log1) \<Rightarrow> (Some err, c1, log1)
      | (None, c1, log1) \<Rightarrow>
          (case SplitMetaNamespaceKey name of
             Inl err \<Rightarrow> (Some err, c1, log1)
           | Inr (svcNamespace, svcName) \<Rightarrow> (None, c1, log1 @ [StatusChange svcNamespace svcName])))"

section \<open>Concrete inputs\<close>

text \<open>
  Inputs for the examples below: the client of the repository's tests, which has no
  library handle (\<open>version: 0\<close>); a client that discovered a version-2 device; and a
  device that accepts every mapping request and has an empty mapping table.
\<close>

definition unavailableClient :: IGDClient where
  "unavailableClient = \<lparr>client1 = None, client2 = None, version = 0, externalIP = None\<rparr>"

definition routerClient :: IGDClient where
  "routerClient =
     \<lparr>client1 = None, client2 = Some (WANIPConnection1 ''http://192.168.1.1:5000/rootDesc.xml''),
      version = 2, externalIP = None\<rparr>"

definition indexInvalid :: device_error where
  "indexInvalid = \<lparr>fault_code = Some 713, message = ''SpecifiedArrayIndexInvalid''\<rparr>"

definition acceptingDevice :: device where
  "acceptingDevice =
     \<lparr>replyAdd = (\<lambda>history a. None), replyDelete = (\<lambda>history a. None),
      replyEntry = (\<lambda>history a. Inl indexInvalid),
      replyExternalIP = (\<lambda>history a. Inr ''203.0.113.1'')\<rparr>"

text \<open>
  A load-balancer address, services named \<open>web\<close> in the namespace \<open>default\<close> with and
  without the annotation, the mappings an apply builds for them, controllers with no and
  with two recorded mappings, and devices that refuse a port or fail altogether.
\<close>

definition balancerIP :: IP where
  "balancerIP = [192, 168, 1, 240]"

definition webService :: Service where
  "webService =
     \<lparr>Name = ''web'', Namespace = ''default'',
      Annotations = Some [UPnPEnabledAnnotation \<mapsto> ''true''],
      Ports = [\<lparr>PortProtocol = ''TCP'', Port = 80\<rparr>, \<lparr>PortProtocol = ''TCP'', Port = 443\<rparr>]\<rparr>"

definition altService :: Service where
  "altService =
     \<lparr>Name = ''web'', Namespace = ''default'',
      Annotations = Some [UPnPEnabledAnnotation \<mapsto> ''True''],
      Ports = [\<lparr>PortProtocol = ''TCP'', Port = 8080\<rparr>]\<rparr>"

definition mixedService :: Service where
  "mixedService =
     \<lparr>Name = ''web'', Namespace = ''default'',
      Annotations = Some [UPnPEnabledAnnotation \<mapsto> ''true''],
      Ports = [\<lparr>PortProtocol = ''TCP'', Port = 8080\<rparr>, \<lparr>PortProtocol = ''SCTP'', Port = 9\<rparr>,
               \<lparr>PortProtocol = ''TCP'', Port = 80\<rparr>]\<rparr>"

definition unmarkedService :: Service where
  "unmarkedService =
     \<lparr>Name = ''web'', Namespace = ''default'',
      Annotations = Some [UPnPEnabledAnnotation \<mapsto> ''false''],
      Ports = [\<lparr>PortProtocol = ''TCP'', Port = 8080\<rparr>]\<rparr>"

definition web80 :: PortMapping where
  "web80 = \<lparr>ExternalPort = 80, InternalPort = 80, InternalIP = balancerIP, Protocol = ''tcp'',
            Description = ''MetalLB LoadBalancer (web:80)'', Duration = 0\<rparr>"

definition web443 :: PortMapping where
  "web443 = \<lparr>ExternalPort = 443, InternalPort = 443, InternalIP = balancerIP, Protocol = ''tcp'',
             Description = ''MetalLB LoadBalancer (web:443)'', Duration = 0\<rparr>"

definition web8080 :: PortMapping where
  "web8080 = \<lparr>ExternalPort = 8080, InternalPort = 8080, InternalIP = balancerIP, Protocol = ''tcp'',
              Description = ''MetalLB LoadBalancer (web:8080)'', Duration = 0\<rparr>"

definition router :: wan_client where
  "router = WANIPConnection1 ''http://192.168.1.1:5000/rootDesc.xml''"

definition emptyController :: upnpController where
  "emptyController = \<lparr>myNode = ''node-a'', client = routerClient, mappings = Map.empty\<rparr>"

definition servingController :: upnpController where
  "servingController =
     \<lparr>myNode = ''node-a'', client = routerClient, mappings = [''default/web'' \<mapsto> [web80, web443]]\<rparr>"

definition conflict :: device_error where
  "conflict = \<lparr>fault_code = Some 718, message = ''ConflictInMappingEntry''\<rparr>"

definition unreachable :: device_error where
  "unreachable = \<lparr>fault_code = None, message = ''connection refused''\<rparr>"

definition occupiedDevice :: device where
  "occupiedDevice =
     \<lparr>replyAdd = (\<lambda>history a.
        case a of
          AddPortMappingAction k remoteHost externalPort protocol internalPort ip enabled d lease \<Rightarrow>
            if externalPort = 8080 then Some conflict else None
        | _ \<Rightarrow> None),
      replyDelete = (\<lambda>history a. None),
      replyEntry = (\<lambda>history a. Inl indexInvalid),
      replyExternalIP = (\<lambda>history a. Inr ''203.0.113.1'')\<rparr>"

definition brokenDevice :: device where
  "brokenDevice =
     \<lparr>replyAdd = (\<lambda>history a. Some unreachable), replyDelete = (\<lambda>history a. Some unreachable),
      replyEntry = (\<lambda>history a. Inl unreachable),
      replyExternalIP = (\<lambda>history a. Inl unreachable)\<rparr>"

text \<open>
  Nodes of a cluster (one not ready, one excluded from balancers), a pool with two
  enabled advertisements and a disabled one, and a controller running on \<open>node-b\<close>.
\<close>

definition readyNode :: Node where
  "readyNode = \<lparr>Conditions = [(''MemoryPressure'', ''False''), (''Ready'', ''True'')], Labels = None\<rparr>"

definition unreadyNode :: Node where
  "unreadyNode = \<lparr>Conditions = [(''Ready'', ''False'')], Labels = None\<rparr>"

definition excludedNode :: Node where
  "excludedNode =
     \<lparr>Conditions = [(''Ready'', ''True'')],
      Labels = Some [''node.kubernetes.io/exclude-from-external-load-balancers'' \<mapsto> ''true'']\<rparr>"

definition clusterNodes :: "string \<rightharpoonup> Node" where
  "clusterNodes =
     [''node-a'' \<mapsto> unreadyNode, ''node-b'' \<mapsto> readyNode, ''node-c'' \<mapsto> readyNode,
      ''node-d'' \<mapsto> excludedNode]"

definition homePool :: Pool where
  "homePool =
     \<lparr>PoolName = ''home'',
      UPnPAdvertisements =
        [\<lparr>Enabled = True,
          Nodes = [(''node-c'', True), (''node-a'', True), (''node-b'', True), (''node-x'', True)]\<rparr>,
         \<lparr>Enabled = False, Nodes = [(''node-0'', True)]\<rparr>,
         \<lparr>Enabled = True, Nodes = [(''node-d'', True), (''node-b'', True)]\<rparr>]\<rparr>"

definition controllerB :: upnpController where
  "controllerB = \<lparr>myNode = ''node-b'', client = routerClient, mappings = Map.empty\<rparr>"

text \<open>
  A \<open>net.ParseIP\<close> restricted to the one address of the examples, an entry of the device's
  mapping table, a device whose table never ends, devices that answer every action with
  one given error, errors with their structured codes and texts, and two gateways.
\<close>

definition knownAddress :: "string \<Rightarrow> IP option" where
  "knownAddress text = (if text = ''192.168.1.100'' then Some [192, 168, 1, 100] else None)"

definition listedEntry :: mapping_entry where
  "listedEntry =
     \<lparr>entryRemoteHost = [], entryExternalPort = 8080, entryProtocol = ''TCP'',
      entryInternalPort = 80, entryInternalClient = ''192.168.1.100'', entryEnabled = True,
      entryDescription = ''Test Web Server'', entryLeaseDuration = 3600\<rparr>"

definition endlessDevice :: device where
  "endlessDevice =
     \<lparr>replyAdd = (\<lambda>history a. None), replyDelete = (\<lambda>history a. None),
      replyEntry = (\<lambda>history a. Inr listedEntry),
      replyExternalIP = (\<lambda>history a. Inr ''203.0.113.1'')\<rparr>"

definition failingWith :: "device_error \<Rightarrow> device" where
  "failingWith err =
     \<lparr>replyAdd = (\<lambda>history a. Some err), replyDelete = (\<lambda>history a. Some err),
      replyEntry = (\<lambda>history a. Inl err), replyExternalIP = (\<lambda>history a. Inl err)\<rparr>"

definition noSuchEntry :: device_error where
  "noSuchEntry = \<lparr>fault_code = Some 714, message = ''UPnPError 714: NoSuchEntryInArray''\<rparr>"

definition noSuchEntryWorded :: device_error where
  "noSuchEntryWorded = \<lparr>fault_code = Some 714, message = ''UPnPError 714: No such entry in array''\<rparr>"

definition indexInvalidWorded :: device_error where
  "indexInvalidWorded = \<lparr>fault_code = Some 713, message = ''UPnPError 713: Index out of range''\<rparr>"

definition actionFailed :: device_error where
  "actionFailed =
     \<lparr>fault_code = Some 501,
      message = ''UPnPError 501: Action Failed (NoSuchEntryInArray while saving the table)''\<rparr>"

definition nearGateway :: wan_client where
  "nearGateway = WANIPConnection1 ''http://192.168.1.1:5000/rootDesc.xml''"

definition farGateway :: wan_client where
  "farGateway = WANIPConnection1 ''http://192.168.1.254:49152/igd.xml''"

section \<open>Properties\<close>

subsection \<open>Comparing protocols and annotation values up to case\<close>

lemma of_char_upper_char:
  "(of_char (upper_char a) :: nat) =
     (if 97 \<le> (of_char a :: nat) \<and> (of_char a :: nat) \<le> 122 then of_char a - 32 else of_char a)"
proof -
  have "(of_char a :: nat) - 32 < 256"
    using nat_of_char_less_256 [of a] by arith
  then show ?thesis
    by (simp add: upper_char_def Let_def)
qed

lemma of_char_lower_char:
  "(of_char (lower_char a) :: nat) =
     (if 65 \<le> (of_char a :: nat) \<and> (of_char a :: nat) \<le> 90 then of_char a + 32 else of_char a)"
  by (simp add: lower_char_def Let_def)

lemma upper_char_eq_iff: "upper_char a = upper_char b \<longleftrightarrow> lower_char a = lower_char b"
proof -
  define n where "n = (of_char a :: nat)"
  define m where "m = (of_char b :: nat)"
  have "upper_char a = upper_char b \<longleftrightarrow> (of_char (upper_char a) :: nat) = of_char (upper_char b)"
    by simp
  also have "\<dots> \<longleftrightarrow>
      (if 97 \<le> n \<and> n \<le> 122 then n - 32 else n) = (if 97 \<le> m \<and> m \<le> 122 then m - 32 else m)"
    unfolding of_char_upper_char n_def m_def ..
  also have "\<dots> \<longleftrightarrow>
      (if 65 \<le> n \<and> n \<le> 90 then n + 32 else n) = (if 65 \<le> m \<and> m \<le> 90 then m + 32 else m)"
    by (simp split: if_splits) arith
  also have "\<dots> \<longleftrightarrow> (of_char (lower_char a) :: nat) = of_char (lower_char b)"
    unfolding of_char_lower_char n_def m_def ..
  also have "\<dots> \<longleftrightarrow> lower_char a = lower_char b"
    by simp
  finally show ?thesis .
qed

lemma ToUpper_eq_iff: "ToUpper s = ToUpper t \<longleftrightarrow> equal_fold s t"
proof (induction s arbitrary: t)
  case Nil
  show ?case by (simp add: ToUpper_def equal_fold_def)
next
  case (Cons a s)
  show ?case
  proof (cases t)
    case Nil
    then show ?thesis by (simp add: ToUpper_def equal_fold_def)
  next
    case (Cons b t')
    with Cons.IH [of t'] show ?thesis
      by (simp add: ToUpper_def equal_fold_def upper_char_eq_iff)
  qed
qed

lemma ToLower_eq_iff: "ToLower s = ToLower t \<longleftrightarrow> equal_fold s t"
proof (induction s arbitrary: t)
  case Nil
  show ?case by (simp add: ToLower_def equal_fold_def)
next
  case (Cons a s)
  show ?case
  proof (cases t)
    case Nil
    then show ?thesis by (simp add: ToLower_def equal_fold_def)
  next
    case (Cons b t')
    with Cons.IH [of t'] show ?thesis
      by (simp add: ToLower_def equal_fold_def)
  qed
qed

lemma ToUpper_tcp: "ToUpper p = ''TCP'' \<longleftrightarrow> equal_fold p ''tcp''"
proof -
  have "ToUpper ''tcp'' = ''TCP''" by code_simp
  then show ?thesis using ToUpper_eq_iff [of p "''tcp''"] by simp
qed

lemma ToUpper_udp: "ToUpper p = ''UDP'' \<longleftrightarrow> equal_fold p ''udp''"
proof -
  have "ToUpper ''udp'' = ''UDP''" by code_simp
  then show ?thesis using ToUpper_eq_iff [of p "''udp''"] by simp
qed

lemma ToLower_true: "ToLower v = ''true'' \<longleftrightarrow> equal_fold v ''true''"
proof -
  have "ToLower ''true'' = ''true''" by code_simp
  then show ?thesis using ToLower_eq_iff [of v "''true''"] by simp
qed

lemma ToLower_tcp: "ToLower p = ''tcp'' \<longleftrightarrow> equal_fold p ''tcp''"
proof -
  have "ToLower ''tcp'' = ''tcp''" by code_simp
  then show ?thesis using ToLower_eq_iff [of p "''tcp''"] by simp
qed

lemma ToLower_udp: "ToLower p = ''udp'' \<longleftrightarrow> equal_fold p ''udp''"
proof -
  have "ToLower ''udp'' = ''udp''" by code_simp
  then show ?thesis using ToLower_eq_iff [of p "''udp''"] by simp
qed

text \<open>
  C7. Fail-fast validation: for a nil mapping, and for every mapping whose protocol is not
  \<open>tcp\<close> or \<open>udp\<close> up to case, \<open>AddPortMapping\<close> returns its validation error and the log
  of device actions is what it was, whatever the device and the client are;
  \<open>DeletePortMapping\<close> rejects every such protocol in the same way.
\<close>

theorem validation_before_any_action:
  assumes "\<not> equal_fold p ''tcp''" and "\<not> equal_fold p ''udp''"
  shows "AddPortMapping dev c log None = (Some ErrNilMapping, log) \<and>
         AddPortMapping dev c log (Some (m\<lparr>Protocol := p\<rparr>)) = (Some (ErrInvalidProtocol p), log) \<and>
         DeletePortMapping dev c log externalPort p = (Some (ErrInvalidProtocol (ToUpper p)), log)"
  using assms by (simp add: AddPortMapping_def DeletePortMapping_def Let_def ToUpper_tcp ToUpper_udp)

theorem validation_before_any_action_witness:
  "\<not> equal_fold ''INVALID'' ''tcp'' \<and> \<not> equal_fold ''INVALID'' ''udp'' \<and>
   AddPortMapping acceptingDevice unavailableClient [] None = (Some ErrNilMapping, []) \<and>
   AddPortMapping acceptingDevice routerClient []
     (Some \<lparr>ExternalPort = 8080, InternalPort = 80, InternalIP = [192, 168, 1, 100],
            Protocol = ''INVALID'', Description = ''Test'', Duration = 0\<rparr>) =
     (Some (ErrInvalidProtocol ''INVALID''), []) \<and>
   DeletePortMapping acceptingDevice routerClient [] 8080 ''INVALID'' =
     (Some (ErrInvalidProtocol ''INVALID''), [])"
proof -
  have a: "\<not> equal_fold ''INVALID'' ''tcp''" unfolding equal_fold_def by simp
  have b: "\<not> equal_fold ''INVALID'' ''udp''" unfolding equal_fold_def by simp
  have u: "ToUpper ''INVALID'' = ''INVALID''" by code_simp
  have n: "AddPortMapping acceptingDevice unavailableClient [] None = (Some ErrNilMapping, [])"
    by (simp add: AddPortMapping_def)
  show ?thesis
    using a b u n
      validation_before_any_action [OF a b, of acceptingDevice routerClient "[]"
        "\<lparr>ExternalPort = 8080, InternalPort = 80, InternalIP = [192, 168, 1, 100],
            Protocol = ''INVALID'', Description = ''Test'', Duration = 0\<rparr>" 8080]
    by simp
qed

subsection \<open>What an apply and a remove send and record\<close>

text \<open>
  The loops of \<open>SetBalancer\<close> and \<open>deleteExistingMappings\<close> are described here by lists:
  the mappings an apply wants, in the order of the loops (every load-balancer address
  with every service port that has a port number and a supported protocol); the actions
  that reach the device; and the mappings whose creation the device confirms, each asked
  after the actions sent before it.
\<close>

definition wanted :: "ServicePort \<Rightarrow> bool" where
  "wanted port = (Port port \<noteq> 0 \<and> (ToLower (PortProtocol port) = ''tcp'' \<or> ToLower (PortProtocol port) = ''udp''))"

definition desiredMappings :: "IP list \<Rightarrow> Service \<Rightarrow> PortMapping list" where
  "desiredMappings lbIPs svc =
     concat (map (\<lambda>lbIP. map (newMapping svc lbIP) (filter wanted (Ports svc))) lbIPs)"

definition validProtocol :: "string \<Rightarrow> bool" where
  "validProtocol p = (ToUpper p = ''TCP'' \<or> ToUpper p = ''UDP'')"

definition addActions :: "IGDClient \<Rightarrow> PortMapping list \<Rightarrow> action list" where
  "addActions cl ms = (case selected cl of None \<Rightarrow> [] | Some k \<Rightarrow> map (addAction k) ms)"

definition deleteActions :: "IGDClient \<Rightarrow> PortMapping list \<Rightarrow> action list" where
  "deleteActions cl ms =
     (case selected cl of
        None \<Rightarrow> []
      | Some k \<Rightarrow> map (\<lambda>m. deleteAction k (ExternalPort m) (Protocol m))
                    (filter (\<lambda>m. validProtocol (Protocol m)) ms))"

definition confirms :: "device \<Rightarrow> IGDClient \<Rightarrow> action list \<Rightarrow> PortMapping \<Rightarrow> bool" where
  "confirms dev cl history m =
     (case selected cl of None \<Rightarrow> False | Some k \<Rightarrow> replyAdd dev history (addAction k m) = None)"

fun created :: "device \<Rightarrow> IGDClient \<Rightarrow> action list \<Rightarrow> PortMapping list \<Rightarrow> PortMapping list" where
  "created dev cl history [] = []"
| "created dev cl history (m # ms) =
     (if confirms dev cl history m then m # created dev cl (history @ addActions cl [m]) ms
      else created dev cl (history @ addActions cl [m]) ms)"

lemma sent_append: "sent (xs @ ys) = sent xs @ sent ys"
  by (induction xs rule: sent.induct) auto

lemma sent_map_Dev: "sent (map Dev as) = as"
  by (induction as) auto

lemma addActions_Nil: "addActions cl [] = []"
  by (simp add: addActions_def split: option.splits)

lemma addActions_append: "addActions cl (xs @ ys) = addActions cl xs @ addActions cl ys"
  by (simp add: addActions_def split: option.splits)

lemma addActions_Cons: "addActions cl (x # xs) = addActions cl [x] @ addActions cl xs"
  using addActions_append [of cl "[x]" xs] by simp

lemma deleteActions_Nil: "deleteActions cl [] = []"
  by (simp add: deleteActions_def split: option.splits)

lemma deleteActions_Cons:
  "deleteActions cl (m # ms) = deleteActions cl [m] @ deleteActions cl ms"
  by (simp add: deleteActions_def split: option.splits)

lemma created_append:
  "created dev cl h (xs @ ys) = created dev cl h xs @ created dev cl (h @ addActions cl xs) ys"
proof (induction xs arbitrary: h)
  case Nil
  show ?case by (simp add: addActions_Nil)
next
  case (Cons x xs)
  show ?case
    using Cons.IH [of "h @ addActions cl [x]"] addActions_Cons [of cl x xs] by simp
qed

lemma valid_newMapping:
  "wanted port \<Longrightarrow> validProtocol (Protocol (newMapping svc lbIP port))"
proof -
  assume "wanted port"
  then consider "ToLower (PortProtocol port) = ''tcp''" | "ToLower (PortProtocol port) = ''udp''"
    by (auto simp: wanted_def)
  then show ?thesis
  proof cases
    case 1
    have "ToUpper ''tcp'' = ''TCP''" by code_simp
    with 1 show ?thesis by (simp add: validProtocol_def newMapping_def)
  next
    case 2
    have "ToUpper ''udp'' = ''UDP''" by code_simp
    with 2 show ?thesis by (simp add: validProtocol_def newMapping_def)
  qed
qed

lemma AddPortMapping_confirmed:
  assumes "validProtocol (Protocol m)" and "confirms dev cl (sent log) m"
  shows "AddPortMapping dev cl log (Some m) = (None, log @ map Dev (addActions cl [m]))"
  using assms
  by (auto simp: AddPortMapping_def validProtocol_def confirms_def addActions_def Let_def
      split: option.splits)

lemma AddPortMapping_refused:
  assumes "validProtocol (Protocol m)" and "\<not> confirms dev cl (sent log) m"
  shows "\<exists>err. AddPortMapping dev cl log (Some m) = (Some err, log @ map Dev (addActions cl [m]))"
  using assms
  by (auto simp: AddPortMapping_def validProtocol_def confirms_def addActions_def Let_def
      split: option.splits)

lemma DeletePortMapping_log:
  "snd (DeletePortMapping dev cl log (ExternalPort m) (Protocol m)) =
     log @ map Dev (deleteActions cl [m])"
  by (auto simp: DeletePortMapping_def validProtocol_def deleteActions_def Let_def
      split: option.splits)

lemma deleteEach_log:
  "deleteEach dev cl ms log = log @ map Dev (deleteActions cl ms)"
proof (induction ms arbitrary: log)
  case Nil
  show ?case by (simp add: deleteActions_Nil)
next
  case (Cons m ms)
  have "deleteEach dev cl (m # ms) log =
          deleteEach dev cl ms (snd (DeletePortMapping dev cl log (ExternalPort m) (Protocol m)))"
    by (simp split: prod.splits)
  also have "\<dots> = (log @ map Dev (deleteActions cl [m])) @ map Dev (deleteActions cl ms)"
    unfolding DeletePortMapping_log by (rule Cons.IH)
  finally show ?case
    using deleteActions_Cons [of cl m ms] by simp
qed

lemma addPorts_result:
  "addPorts dev cl svc lbIP ports new log =
     (new @ created dev cl (sent log) (map (newMapping svc lbIP) (filter wanted ports)),
      log @ map Dev (addActions cl (map (newMapping svc lbIP) (filter wanted ports))))"
proof (induction ports arbitrary: new log)
  case Nil
  show ?case by (simp add: addActions_Nil)
next
  case (Cons port ports)
  show ?case
  proof (cases "wanted port")
    case False
    then have "addPorts dev cl svc lbIP (port # ports) new log = addPorts dev cl svc lbIP ports new log"
      by (auto simp: wanted_def)
    with False Cons.IH [of new log] show ?thesis by simp
  next
    case True
    let ?m = "newMapping svc lbIP port"
    let ?log = "log @ map Dev (addActions cl [?m])"
    have v: "validProtocol (Protocol ?m)" using True by (rule valid_newMapping)
    have s: "sent ?log = sent log @ addActions cl [?m]"
      by (simp add: sent_append sent_map_Dev)
    have w: "Port port \<noteq> 0"
      "\<not> (ToLower (PortProtocol port) \<noteq> ''tcp'' \<and> ToLower (PortProtocol port) \<noteq> ''udp'')"
      using True by (auto simp: wanted_def)
    have step: "addPorts dev cl svc lbIP (port # ports) new log =
        addPorts dev cl svc lbIP ports (if confirms dev cl (sent log) ?m then new @ [?m] else new) ?log"
    proof (cases "confirms dev cl (sent log) ?m")
      case True
      show ?thesis
        unfolding addPorts.simps(2) if_not_P [OF w(1)] if_not_P [OF w(2)]
          AddPortMapping_confirmed [OF v True]
        using True by simp
    next
      case False
      from AddPortMapping_refused [OF v False] obtain err where
        e: "AddPortMapping dev cl log (Some ?m) = (Some err, ?log)" by blast
      show ?thesis
        unfolding addPorts.simps(2) if_not_P [OF w(1)] if_not_P [OF w(2)] e
        using False by simp
    qed
    have a: "addActions cl (?m # map (newMapping svc lbIP) (filter wanted ports)) =
               addActions cl [?m] @ addActions cl (map (newMapping svc lbIP) (filter wanted ports))"
      by (rule addActions_Cons)
    show ?thesis
      unfolding step Cons.IH s using True a
      by simp
  qed
qed

lemma addAll_result:
  "addAll dev cl svc lbIPs new log =
     (new @ created dev cl (sent log) (desiredMappings lbIPs svc),
      log @ map Dev (addActions cl (desiredMappings lbIPs svc)))"
proof (induction lbIPs arbitrary: new log)
  case Nil
  show ?case by (simp add: desiredMappings_def addActions_Nil)
next
  case (Cons lbIP lbIPs)
  have d: "desiredMappings (lbIP # lbIPs) svc =
             map (newMapping svc lbIP) (filter wanted (Ports svc)) @ desiredMappings lbIPs svc"
    by (simp add: desiredMappings_def)
  show ?case
    unfolding d
    by (simp add: addPorts_result Cons.IH created_append addActions_append sent_append sent_map_Dev)
qed

text \<open>The list recorded for a service key; nothing recorded is the empty list.\<close>

definition recordedFor :: "upnpController \<Rightarrow> string \<Rightarrow> PortMapping list" where
  "recordedFor c name = (case mappings c name of None \<Rightarrow> [] | Some recorded \<Rightarrow> recorded)"

text \<open>
  The mappings of a wanted list whose creation the device confirms: the one at position
  \<open>i\<close> is sent after the history and the add actions of the positions before it, and is
  kept when the reply to it is no error.
\<close>

definition confirmedCreations ::
  "device \<Rightarrow> IGDClient \<Rightarrow> action list \<Rightarrow> PortMapping list \<Rightarrow> PortMapping list" where
  "confirmedCreations dev cl history ms =
     map (\<lambda>i. ms ! i)
       (filter (\<lambda>i. confirms dev cl (history @ addActions cl (take i ms)) (ms ! i)) [0..<length ms])"

lemma created_confirmedCreations:
  "created dev cl history ms = confirmedCreations dev cl history ms"
proof (induction ms arbitrary: history)
  case Nil
  show ?case by (simp add: confirmedCreations_def)
next
  case (Cons m ms)
  have upt: "[0..<length (m # ms)] = 0 # map Suc [0..<length ms]"
    by (simp add: upt_conv_Cons map_Suc_upt del: upt_Suc)
  have tl: "map (\<lambda>i. (m # ms) ! i)
              (filter (\<lambda>i. confirms dev cl (history @ addActions cl (take i (m # ms))) ((m # ms) ! i))
                 (map Suc [0..<length ms])) =
            confirmedCreations dev cl (history @ addActions cl [m]) ms"
    unfolding confirmedCreations_def filter_map map_map comp_def
    by (simp add: addActions_def split: option.splits)
  show ?case
    unfolding confirmedCreations_def upt
    using tl Cons.IH [of "history @ addActions cl [m]"]
    by (simp add: addActions_Nil)
qed

lemma deleteExistingMappings_result:
  "deleteExistingMappings dev c log name =
     (None, c\<lparr>mappings := (mappings c)(name := None)\<rparr>,
      log @ map Dev (deleteActions (client c) (recordedFor c name)))"
proof (cases "mappings c name")
  case None
  then have "(mappings c)(name := None) = mappings c"
    by auto
  with None show ?thesis
    by (simp add: deleteExistingMappings_def recordedFor_def deleteActions_Nil)
next
  case (Some recorded)
  then show ?thesis
    by (simp add: deleteExistingMappings_def recordedFor_def deleteEach_log)
qed

lemma SetBalancer_enabled:
  assumes "isUPnPEnabled svc"
  shows "SetBalancer dev c log name lbIPs svc =
     (None,
      c\<lparr>mappings := (mappings c)(name \<mapsto>
          created dev (client c) (sent log @ deleteActions (client c) (recordedFor c name))
            (desiredMappings lbIPs svc))\<rparr>,
      log @ map Dev (deleteActions (client c) (recordedFor c name)) @
        map Dev (addActions (client c) (desiredMappings lbIPs svc)) @
        (if created dev (client c) (sent log @ deleteActions (client c) (recordedFor c name))
              (desiredMappings lbIPs svc) = []
         then [] else [StatusChange (Namespace svc) (Name svc)]))"
  using assms
  by (simp add: SetBalancer_def deleteExistingMappings_result addAll_result sent_append sent_map_Dev)

lemma length_Split: "length (Split s sep) = Suc (count_list s sep)"
  by (induction s) (auto split: list.splits)

lemma SplitMetaNamespaceKey_ok:
  assumes "count_list name CHR ''/'' \<le> 1"
  shows "\<exists>svcNamespace svcName. SplitMetaNamespaceKey name = Inr (svcNamespace, svcName)"
proof -
  have "length (Split name CHR ''/'') = 1 \<or> length (Split name CHR ''/'') = 2"
    using assms length_Split [of name "CHR ''/''"] by arith
  then show ?thesis
  proof
    assume "length (Split name CHR ''/'') = 1"
    then obtain a where "Split name CHR ''/'' = [a]"
      by (auto simp: length_Suc_conv)
    then show ?thesis by (simp add: SplitMetaNamespaceKey_def)
  next
    assume "length (Split name CHR ''/'') = 2"
    then obtain a b where "Split name CHR ''/'' = [a, b]"
      by (auto simp: length_Suc_conv numeral_2_eq_2)
    then show ?thesis by (simp add: SplitMetaNamespaceKey_def)
  qed
qed

lemma DeleteBalancer_result:
  "DeleteBalancer dev c log name reason =
     (case SplitMetaNamespaceKey name of
        Inl err \<Rightarrow>
          (Some err, c\<lparr>mappings := (mappings c)(name := None)\<rparr>,
           log @ map Dev (deleteActions (client c) (recordedFor c name)))
      | Inr (svcNamespace, svcName) \<Rightarrow>
          (None, c\<lparr>mappings := (mappings c)(name := None)\<rparr>,
           log @ map Dev (deleteActions (client c) (recordedFor c name)) @
             [StatusChange svcNamespace svcName]))"
  by (simp add: DeleteBalancer_def deleteExistingMappings_result split: sum.splits prod.splits)

text \<open>
  C10. When the service does not carry the annotation \<open>metallb.universe.tf/upnp-enabled\<close>
  with a value equal to \<open>true\<close> up to case, \<open>SetBalancer\<close> returns nil and leaves the
  controller and the log as they were: every recorded list stays, also the one of this
  service key, and no delete is sent.
\<close>

theorem SetBalancer_without_annotation:
  assumes "\<not> (\<exists>annotations v. Annotations svc = Some annotations \<and>
              annotations UPnPEnabledAnnotation = Some v \<and> equal_fold v ''true'')"
  shows "SetBalancer dev c log name lbIPs svc = (None, c, log)"
proof -
  have "\<not> isUPnPEnabled svc"
    using assms by (auto simp: isUPnPEnabled_def ToLower_true split: option.splits)
  then show ?thesis by (simp add: SetBalancer_def)
qed

theorem SetBalancer_without_annotation_witness:
  "\<not> (\<exists>annotations v. Annotations unmarkedService = Some annotations \<and>
         annotations UPnPEnabledAnnotation = Some v \<and> equal_fold v ''true'') \<and>
   SetBalancer acceptingDevice servingController [] ''default/web'' [balancerIP] unmarkedService =
     (None, servingController, []) \<and>
   mappings servingController ''default/web'' = Some [web80, web443]"
proof -
  have h: "\<not> (\<exists>annotations v. Annotations unmarkedService = Some annotations \<and>
         annotations UPnPEnabledAnnotation = Some v \<and> equal_fold v ''true'')"
    by (simp add: unmarkedService_def equal_fold_def)
  have m: "mappings servingController ''default/web'' = Some [web80, web443]"
    by (simp add: servingController_def)
  show ?thesis
    using h m SetBalancer_without_annotation [OF h, of acceptingDevice servingController "[]"
        "''default/web''" "[balancerIP]"]
    by simp
qed

text \<open>
  C3. The bookkeeping table after an apply and after a remove. After \<open>SetBalancer\<close> for an
  enabled service the table is the old one with the list of the service key replaced by
  exactly the wanted mappings whose creation the device confirmed in this call, in order:
  a mapping whose creation failed is not in it. After \<open>DeleteBalancer\<close> the key is absent.
  The lists of all other keys are as before.
\<close>

theorem record_is_confirmed_creations:
  assumes "isUPnPEnabled svc"
  shows "mappings (fst (snd (SetBalancer dev c log name lbIPs svc))) =
           (mappings c)(name \<mapsto>
              confirmedCreations dev (client c)
                (sent log @ deleteActions (client c) (recordedFor c name))
                (desiredMappings lbIPs svc)) \<and>
         mappings (fst (snd (DeleteBalancer dev c log name reason))) = (mappings c)(name := None)"
  using assms
  by (simp add: SetBalancer_enabled DeleteBalancer_result created_confirmedCreations
      split: sum.splits prod.splits)

theorem record_is_confirmed_creations_witness:
  "isUPnPEnabled mixedService \<and>
   mappings (fst (snd (SetBalancer occupiedDevice servingController [] ''default/web'' [balancerIP] mixedService))) =
     (mappings servingController)(''default/web'' \<mapsto>
        confirmedCreations occupiedDevice (client servingController)
          (sent [] @ deleteActions (client servingController) (recordedFor servingController ''default/web''))
          (desiredMappings [balancerIP] mixedService)) \<and>
   mappings (fst (snd (DeleteBalancer occupiedDevice servingController [] ''default/web'' ''removed''))) =
     (mappings servingController)(''default/web'' := None) \<and>
   desiredMappings [balancerIP] mixedService = [web8080, web80] \<and>
   confirmedCreations occupiedDevice (client servingController)
     (sent [] @ deleteActions (client servingController) (recordedFor servingController ''default/web''))
     (desiredMappings [balancerIP] mixedService) = [web80]"
proof -
  have h: "isUPnPEnabled mixedService" by code_simp
  have d: "desiredMappings [balancerIP] mixedService = [web8080, web80]" by code_simp
  have e: "confirmedCreations occupiedDevice (client servingController)
     (sent [] @ deleteActions (client servingController) (recordedFor servingController ''default/web''))
     (desiredMappings [balancerIP] mixedService) = [web80]" by code_simp
  show ?thesis
    using h d e record_is_confirmed_creations [OF h, of occupiedDevice servingController "[]"
        "''default/web''" "[balancerIP]" "''removed''"]
    by blast
qed

text \<open>
  C9. A service key is a name or a namespace and a name joined by \<open>/\<close>, so it has at most
  one \<open>/\<close>. For every service key, whatever the device answers to the deletes,
  \<open>DeleteBalancer\<close> returns nil, the record of the key is cleared, and the log is extended
  by the delete actions followed by exactly one status change for the namespace and name
  of the key.
\<close>

theorem DeleteBalancer_clears_and_notifies:
  assumes "count_list name CHR ''/'' \<le> 1"
  shows "\<exists>svcNamespace svcName.
           SplitMetaNamespaceKey name = Inr (svcNamespace, svcName) \<and>
           DeleteBalancer dev c log name reason =
             (None, c\<lparr>mappings := (mappings c)(name := None)\<rparr>,
              log @ map Dev (deleteActions (client c) (recordedFor c name)) @
                [StatusChange svcNamespace svcName])"
proof -
  from SplitMetaNamespaceKey_ok [OF assms] obtain svcNamespace svcName
    where "SplitMetaNamespaceKey name = Inr (svcNamespace, svcName)" by blast
  then show ?thesis by (simp add: DeleteBalancer_result)
qed


theorem DeleteBalancer_clears_and_notifies_witness:
  "count_list ''default/web'' CHR ''/'' \<le> 1 \<and>
   DeleteBalancer brokenDevice servingController [] ''default/web'' ''removed'' =
     (None, servingController\<lparr>mappings := (mappings servingController)(''default/web'' := None)\<rparr>,
      [Dev (DeletePortMappingAction router [] 80 ''TCP''),
       Dev (DeletePortMappingAction router [] 443 ''TCP''),
       StatusChange ''default'' ''web''])"
proof -
  have h: "count_list ''default/web'' CHR ''/'' \<le> 1" by simp
  have s: "SplitMetaNamespaceKey ''default/web'' = Inr (''default'', ''web'')" by code_simp
  have d: "deleteActions (client servingController) (recordedFor servingController ''default/web'') =
      [DeletePortMappingAction router [] 80 ''TCP'', DeletePortMappingAction router [] 443 ''TCP'']"
    by code_simp
  show ?thesis
    using h s d DeleteBalancer_clears_and_notifies [OF h, of brokenDevice servingController "[]" "''removed''"]
    by auto
qed

lemma created_no_client: "selected cl = None \<Longrightarrow> created dev cl h ms = []"
  by (induction ms arbitrary: h) (auto simp: confirms_def)

lemma valid_desired: "m \<in> set (desiredMappings lbIPs svc) \<Longrightarrow> validProtocol (Protocol m)"
  by (auto simp: desiredMappings_def valid_newMapping)

text \<open>Two applies for the key \<open>default/web\<close>, evaluated.\<close>

lemma desired_webService: "desiredMappings [balancerIP] webService = [web80, web443]"
  by code_simp

lemma desired_altService: "desiredMappings [balancerIP] altService = [web8080]"
  by code_simp

lemma enabled_webService: "isUPnPEnabled webService"
  by code_simp

lemma enabled_altService: "isUPnPEnabled altService"
  by code_simp

lemma selected_routerClient: "selected routerClient = Some router"
  by (simp add: selected_def routerClient_def router_def)

lemma first_apply:
  assumes "replyAdd dev [] (addAction router web80) = None"
    and "replyAdd dev [addAction router web80] (addAction router web443) = None"
  shows "SetBalancer dev emptyController [] ''default/web'' [balancerIP] webService =
           (None, emptyController\<lparr>mappings := [''default/web'' \<mapsto> [web80, web443]]\<rparr>,
            [Dev (addAction router web80), Dev (addAction router web443),
             StatusChange ''default'' ''web''])"
proof -
  have r: "recordedFor emptyController ''default/web'' = []"
    by (simp add: recordedFor_def emptyController_def)
  have c: "client emptyController = routerClient" "mappings emptyController = Map.empty"
    by (simp_all add: emptyController_def)
  have n: "Namespace webService = ''default''" "Name webService = ''web''"
    by (simp_all add: webService_def)
  show ?thesis
    unfolding SetBalancer_enabled [OF enabled_webService] desired_webService r c n
    using assms
    by (simp add: deleteActions_def addActions_def confirms_def selected_routerClient)
qed

lemma second_apply:
  "SetBalancer dev (emptyController\<lparr>mappings := [''default/web'' \<mapsto> [web80, web443]]\<rparr>) log
       ''default/web'' [balancerIP] altService =
     (None,
      emptyController\<lparr>mappings := [''default/web'' \<mapsto>
        (if replyAdd dev (sent log @ [DeletePortMappingAction router [] 80 ''TCP'',
               DeletePortMappingAction router [] 443 ''TCP'']) (addAction router web8080) = None
         then [web8080] else [])]\<rparr>,
      log @ [Dev (DeletePortMappingAction router [] 80 ''TCP''),
             Dev (DeletePortMappingAction router [] 443 ''TCP''),
             Dev (addAction router web8080)] @
        (if replyAdd dev (sent log @ [DeletePortMappingAction router [] 80 ''TCP'',
               DeletePortMappingAction router [] 443 ''TCP'']) (addAction router web8080) = None
         then [StatusChange ''default'' ''web''] else []))"
proof -
  let ?c = "emptyController\<lparr>mappings := [''default/web'' \<mapsto> [web80, web443]]\<rparr>"
  have r: "recordedFor ?c ''default/web'' = [web80, web443]"
    by (simp add: recordedFor_def)
  have c: "client ?c = routerClient"
    by (simp add: emptyController_def)
  have n: "Namespace altService = ''default''" "Name altService = ''web''"
    by (simp_all add: altService_def)
  have d: "deleteActions routerClient [web80, web443] =
             [DeletePortMappingAction router [] 80 ''TCP'', DeletePortMappingAction router [] 443 ''TCP'']"
    by code_simp
  show ?thesis
    unfolding SetBalancer_enabled [OF enabled_altService] desired_altService r c n d
    by (simp add: addActions_def confirms_def selected_routerClient)
qed

lemma occupied_replies:
  "replyAdd occupiedDevice history (addAction router web80) = None"
  "replyAdd occupiedDevice history (addAction router web443) = None"
  "replyAdd occupiedDevice history (addAction router web8080) = Some conflict"
  by (simp_all add: occupiedDevice_def addAction_def web80_def web443_def web8080_def)

text \<open>
  C1, amended. Let an apply for an enabled service want \<open>A\<close> and \<open>B\<close> and record both, and
  let a second apply for the same key want \<open>C\<close>. Then the second apply sends the delete of
  \<open>A\<close>, the delete of \<open>B\<close> and then the creation of \<open>C\<close>, and afterwards the list recorded for
  the key is \<open>[C]\<close> when the device confirmed the creation of \<open>C\<close> and the empty list when
  it did not; the status change is emitted in the first case only.
\<close>

theorem full_replace:
  assumes en1: "isUPnPEnabled svc1" and en2: "isUPnPEnabled svc2"
    and d1: "desiredMappings lbIPs1 svc1 = [A, B]"
    and d2: "desiredMappings lbIPs2 svc2 = [C]"
    and first: "SetBalancer dev c0 log0 S lbIPs1 svc1 = (r1, c1, log1)"
    and both: "mappings c1 S = Some [A, B]"
    and second: "SetBalancer dev c1 log1 S lbIPs2 svc2 = (r2, c2, log2)"
  shows "\<exists>k. selected (client c0) = Some k \<and>
           log2 = log1 @
             [Dev (deleteAction k (ExternalPort A) (Protocol A)),
              Dev (deleteAction k (ExternalPort B) (Protocol B)),
              Dev (addAction k C)] @
             (if replyAdd dev
                   (sent log1 @ [deleteAction k (ExternalPort A) (Protocol A),
                                 deleteAction k (ExternalPort B) (Protocol B)])
                   (addAction k C) = None
              then [StatusChange (Namespace svc2) (Name svc2)] else []) \<and>
           mappings c2 S =
             Some (if replyAdd dev
                        (sent log1 @ [deleteAction k (ExternalPort A) (Protocol A),
                                      deleteAction k (ExternalPort B) (Protocol B)])
                        (addAction k C) = None
                   then [C] else [])"
proof -
  let ?h0 = "sent log0 @ deleteActions (client c0) (recordedFor c0 S)"
  have c1: "c1 = c0\<lparr>mappings := (mappings c0)(S \<mapsto> created dev (client c0) ?h0 [A, B])\<rparr>"
    using first unfolding SetBalancer_enabled [OF en1] d1 by simp
  then have cl: "client c1 = client c0" by simp
  have "created dev (client c0) ?h0 [A, B] = [A, B]"
    using both c1 by simp
  then have "selected (client c0) \<noteq> None"
    using created_no_client [of "client c0" dev ?h0 "[A, B]"] by auto
  then obtain k where k: "selected (client c0) = Some k" by blast
  have vA: "validProtocol (Protocol A)" and vB: "validProtocol (Protocol B)"
    using valid_desired [of A lbIPs1 svc1] valid_desired [of B lbIPs1 svc1] d1 by simp_all
  have rec: "recordedFor c1 S = [A, B]"
    using both by (simp add: recordedFor_def)
  have dels: "deleteActions (client c0) [A, B] =
      [deleteAction k (ExternalPort A) (Protocol A), deleteAction k (ExternalPort B) (Protocol B)]"
    using k vA vB by (simp add: deleteActions_def)
  have adds: "addActions (client c0) [C] = [addAction k C]"
    using k by (simp add: addActions_def)
  have cr: "created dev (client c0) h [C] = (if replyAdd dev h (addAction k C) = None then [C] else [])" for h
    using k by (simp add: confirms_def)
  show ?thesis
    using second k unfolding SetBalancer_enabled [OF en2] d2 rec cl dels adds cr
    by auto
qed

theorem full_replace_witness:
  "isUPnPEnabled webService \<and> isUPnPEnabled altService \<and>
   desiredMappings [balancerIP] webService = [web80, web443] \<and>
   desiredMappings [balancerIP] altService = [web8080] \<and>
   mappings (fst (snd (SetBalancer acceptingDevice emptyController [] ''default/web'' [balancerIP] webService)))
     ''default/web'' = Some [web80, web443] \<and>
   (\<exists>k. selected (client emptyController) = Some k \<and>
     snd (snd (SetBalancer acceptingDevice
        (fst (snd (SetBalancer acceptingDevice emptyController [] ''default/web'' [balancerIP] webService)))
        (snd (snd (SetBalancer acceptingDevice emptyController [] ''default/web'' [balancerIP] webService)))
        ''default/web'' [balancerIP] altService)) =
       snd (snd (SetBalancer acceptingDevice emptyController [] ''default/web'' [balancerIP] webService)) @
         [Dev (deleteAction k (ExternalPort web80) (Protocol web80)),
          Dev (deleteAction k (ExternalPort web443) (Protocol web443)),
          Dev (addAction k web8080), StatusChange ''default'' ''web''] \<and>
     mappings (fst (snd (SetBalancer acceptingDevice
        (fst (snd (SetBalancer acceptingDevice emptyController [] ''default/web'' [balancerIP] webService)))
        (snd (snd (SetBalancer acceptingDevice emptyController [] ''default/web'' [balancerIP] webService)))
        ''default/web'' [balancerIP] altService)))
       ''default/web'' = Some [web8080])"
proof -
  let ?first = "SetBalancer acceptingDevice emptyController [] ''default/web'' [balancerIP] webService"
  let ?second = "SetBalancer acceptingDevice (fst (snd ?first)) (snd (snd ?first))
                   ''default/web'' [balancerIP] altService"
  note h1 = enabled_webService and h2 = enabled_altService
    and d1 = desired_webService and d2 = desired_altService
  have r: "replyAdd acceptingDevice history a = None" for history a
    by (simp add: acceptingDevice_def)
  have f: "?first = (fst ?first, fst (snd ?first), snd (snd ?first))" by simp
  have b: "mappings (fst (snd ?first)) ''default/web'' = Some [web80, web443]"
    unfolding first_apply [of acceptingDevice, OF r r] by simp
  have s: "?second = (fst ?second, fst (snd ?second), snd (snd ?second))" by simp
  have n: "Namespace altService = ''default''" "Name altService = ''web''"
    by (simp_all add: altService_def)
  show ?thesis
    using h1 h2 d1 d2 b full_replace [OF h1 h2 d1 d2 f b s]
    unfolding n r by simp
qed

text \<open>
  The claim as stated fails when the device refuses the creation of \<open>C\<close>: the first apply
  records the mappings of ports 80 and 443, the second wants port 8080, which the device
  refuses, and the list recorded afterwards is empty, not the list of that mapping.
\<close>

theorem full_replace_counterexample:
  "isUPnPEnabled webService \<and> isUPnPEnabled altService \<and>
   desiredMappings [balancerIP] webService = [web80, web443] \<and>
   desiredMappings [balancerIP] altService = [web8080] \<and>
   mappings (fst (snd (SetBalancer occupiedDevice emptyController [] ''default/web'' [balancerIP] webService)))
     ''default/web'' = Some [web80, web443] \<and>
   mappings (fst (snd (SetBalancer occupiedDevice
        (fst (snd (SetBalancer occupiedDevice emptyController [] ''default/web'' [balancerIP] webService)))
        (snd (snd (SetBalancer occupiedDevice emptyController [] ''default/web'' [balancerIP] webService)))
        ''default/web'' [balancerIP] altService)))
     ''default/web'' = Some [] \<and>
   Some [] \<noteq> Some [web8080]"
  unfolding first_apply [of occupiedDevice, OF occupied_replies(1) occupied_replies(2)]
    fst_conv snd_conv second_apply occupied_replies
  using enabled_webService enabled_altService desired_webService desired_altService
  by simp

subsection \<open>The sort of the eligible nodes\<close>

text \<open>
  The inner loop for position \<open>i\<close> permutes the list, touches no position below \<open>j\<close> other
  than \<open>i\<close>, and leaves at \<open>i\<close> a name that is not above any later one.
\<close>

lemma sortInner_mset: "i < j \<Longrightarrow> mset (sortInner i j e) = mset e"
proof (induction i j e rule: sortInner.induct)
  case (1 i j e)
  show ?case
  proof (cases "j < length e")
    case True
    let ?e' = "if e ! i > e ! j then e[i := e ! j, j := e ! i] else e"
    have "mset ?e' = mset e"
      using True "1.prems" by (simp add: mset_swap)
    moreover have "mset (sortInner i (j + 1) ?e') = mset ?e'"
      using "1.IH" [OF True] "1.prems" by simp
    moreover have "sortInner i j e = sortInner i (j + 1) ?e'"
      using True by (subst sortInner.simps) simp
    ultimately show ?thesis by simp
  next
    case False
    then show ?thesis by (subst sortInner.simps) simp
  qed
qed

lemma sortInner_nth_other:
  "i < j \<Longrightarrow> k < j \<Longrightarrow> k \<noteq> i \<Longrightarrow> sortInner i j e ! k = e ! k"
proof (induction i j e rule: sortInner.induct)
  case (1 i j e)
  show ?case
  proof (cases "j < length e")
    case True
    let ?e' = "if e ! i > e ! j then e[i := e ! j, j := e ! i] else e"
    have "?e' ! k = e ! k"
      using "1.prems" by simp
    moreover have "sortInner i (j + 1) ?e' ! k = ?e' ! k"
      using "1.IH" [OF True] "1.prems" by simp
    moreover have "sortInner i j e = sortInner i (j + 1) ?e'"
      using True by (subst sortInner.simps) simp
    ultimately show ?thesis by simp
  next
    case False
    then show ?thesis by (subst sortInner.simps) simp
  qed
qed

lemma sortInner_least:
  "i < j \<Longrightarrow> (\<forall>k. i < k \<and> k < j \<longrightarrow> e ! i \<le> e ! k) \<Longrightarrow> i < k \<Longrightarrow> k < length e \<Longrightarrow>
     sortInner i j e ! i \<le> sortInner i j e ! k"
proof (induction i j e arbitrary: k rule: sortInner.induct)
  case (1 i j e)
  show ?case
  proof (cases "j < length e")
    case True
    let ?e' = "if e ! i > e ! j then e[i := e ! j, j := e ! i] else e"
    have step: "sortInner i j e = sortInner i (j + 1) ?e'"
      using True by (subst sortInner.simps) simp
    have len: "length ?e' = length e" by simp
    have pre: "\<forall>k. i < k \<and> k < j + 1 \<longrightarrow> ?e' ! i \<le> ?e' ! k"
    proof (intro allI impI)
      fix k assume k: "i < k \<and> k < j + 1"
      show "?e' ! i \<le> ?e' ! k"
      proof (cases "e ! i > e ! j")
        case swap: True
        have i: "?e' ! i = e ! j" using swap True "1.prems"(1) by simp
        show ?thesis
        proof (cases "k = j")
          case True
          then have "?e' ! k = e ! i" using swap \<open>j < length e\<close> by simp
          with i swap show ?thesis by simp
        next
          case False
          with k have kj: "k < j" by simp
          then have "?e' ! k = e ! k" using swap k by simp
          moreover have "e ! i \<le> e ! k" using "1.prems"(2) k kj by simp
          ultimately show ?thesis using i swap by simp
        qed
      next
        case keep: False
        show ?thesis
        proof (cases "k = j")
          case True
          with keep show ?thesis by simp
        next
          case False
          with k have "k < j" by simp
          with keep "1.prems"(2) k show ?thesis by simp
        qed
      qed
    qed
    have ij: "i < j + 1" using "1.prems"(1) by simp
    have kl: "k < length ?e'" using "1.prems"(4) by simp
    have "sortInner i (j + 1) ?e' ! i \<le> sortInner i (j + 1) ?e' ! k"
      using ij pre "1.prems"(3) kl by (rule "1.IH" [OF True])
    then show ?thesis unfolding step .
  next
    case False
    then have "sortInner i j e = e" by (subst sortInner.simps) simp
    moreover have "k < j" using False "1.prems"(4) by simp
    ultimately show ?thesis using "1.prems"(2,3) by simp
  qed
qed

text \<open>The invariant of the outer loop: the first \<open>i\<close> names are sorted and none of them is
  above a later name.\<close>

definition sortedUpTo :: "nat \<Rightarrow> string list \<Rightarrow> bool" where
  "sortedUpTo i e = (sorted (take i e) \<and> (\<forall>a\<in>set (take i e). \<forall>b\<in>set (drop i e). a \<le> b))"

lemma sortInner_keeps_prefix:
  assumes "i < length e"
  shows "take i (sortInner i (Suc i) e) = take i e"
proof (rule nth_take_lemma)
  show "i \<le> length (sortInner i (Suc i) e)" using assms by (simp add: length_sortInner)
  show "i \<le> length e" using assms by simp
next
  fix k
  show "k < i \<longrightarrow> sortInner i (Suc i) e ! k = e ! k"
    by (simp add: sortInner_nth_other)
qed

lemma sortInner_suffix_set:
  assumes "i < length e"
  shows "set (drop i (sortInner i (Suc i) e)) = set (drop i e)"
proof -
  let ?r = "sortInner i (Suc i) e"
  have "mset (take i ?r @ drop i ?r) = mset (take i e @ drop i e)"
    by (simp add: sortInner_mset)
  then have "mset (take i e) + mset (drop i ?r) = mset (take i e) + mset (drop i e)"
    unfolding mset_append sortInner_keeps_prefix [OF assms] .
  then have "mset (drop i ?r) = mset (drop i e)"
    by (rule add_left_imp_eq)
  then show ?thesis by (rule mset_eq_setD)
qed

lemma sortedUpTo_step:
  assumes "sortedUpTo i e" and "Suc i < length e"
  shows "sortedUpTo (Suc i) (sortInner i (Suc i) e)"
proof -
  let ?r = "sortInner i (Suc i) e"
  have ie: "i < length e" using assms(2) by simp
  have len: "length ?r = length e" by (rule length_sortInner)
  have i: "i < length ?r" using assms(2) len by simp
  have pre: "take i ?r = take i e" using ie by (rule sortInner_keeps_prefix)
  have suf: "set (drop i ?r) = set (drop i e)" using ie by (rule sortInner_suffix_set)
  have ri: "?r ! i \<in> set (drop i ?r)"
    using i by (metis Cons_nth_drop_Suc list.set_intros(1))
  have below: "\<forall>a\<in>set (take i e). a \<le> ?r ! i"
    using assms(1) ri unfolding sortedUpTo_def suf by blast
  have tk: "take (Suc i) ?r = take i e @ [?r ! i]"
    using i pre by (simp add: take_Suc_conv_app_nth)
  have s0: "sorted (take i e)" using assms(1) by (simp add: sortedUpTo_def)
  have s: "sorted (take (Suc i) ?r)"
    unfolding tk sorted_append using s0 below by simp
  have least: "\<forall>b\<in>set (drop (Suc i) ?r). ?r ! i \<le> b"
  proof
    fix b assume "b \<in> set (drop (Suc i) ?r)"
    then obtain k where k: "k < length ?r - Suc i" "b = ?r ! (Suc i + k)"
      by (auto simp: in_set_conv_nth)
    have "?r ! i \<le> ?r ! (Suc i + k)"
    proof (rule sortInner_least)
      show "i < Suc i" by simp
      show "\<forall>k. i < k \<and> k < Suc i \<longrightarrow> e ! i \<le> e ! k" by auto
      show "i < Suc i + k" by simp
      show "Suc i + k < length e" using k(1) len by simp
    qed
    with k(2) show "?r ! i \<le> b" by simp
  qed
  have sub: "set (drop (Suc i) ?r) \<subseteq> set (drop i e)"
    using set_drop_subset_set_drop [of i "Suc i" ?r] suf by simp
  have cross: "\<forall>a\<in>set (take i e). \<forall>b\<in>set (drop (Suc i) ?r). a \<le> b"
    using assms(1) sub unfolding sortedUpTo_def by blast
  have "\<forall>a\<in>set (take (Suc i) ?r). \<forall>b\<in>set (drop (Suc i) ?r). a \<le> b"
    unfolding tk using least cross by simp
  with s show ?thesis unfolding sortedUpTo_def by simp
qed

lemma sortOuter_sorted: "sortedUpTo i e \<Longrightarrow> sorted (sortOuter i e)"
proof (induction i e rule: sortOuter.induct)
  case (1 i e)
  show ?case
  proof (cases "i + 1 < length e")
    case True
    have "Suc i < length e" using True by simp
    then have "sortedUpTo (Suc i) (sortInner i (Suc i) e)"
      using "1.prems" by (intro sortedUpTo_step)
    then have "sorted (sortOuter (i + 1) (sortInner i (i + 1) e))"
      using "1.IH" [OF True] by simp
    then show ?thesis using True by (subst sortOuter.simps) simp
  next
    case False
    then have short: "length (drop i e) \<le> 1" by simp
    have "sorted (drop i e)"
      using short by (cases "drop i e") (simp_all add: Suc_le_eq)
    then have "sorted (take i e @ drop i e)"
      using "1.prems" unfolding sortedUpTo_def sorted_append by blast
    then show ?thesis using False by (subst sortOuter.simps) simp
  qed
qed

lemma sortOuter_mset: "mset (sortOuter i e) = mset e"
proof (induction i e rule: sortOuter.induct)
  case (1 i e)
  show ?case
  proof (cases "i + 1 < length e")
    case True
    then show ?thesis
      using "1.IH" [OF True] by (subst sortOuter.simps) (simp add: sortInner_mset)
  next
    case False
    then show ?thesis by (subst sortOuter.simps) simp
  qed
qed

subsection \<open>Election\<close>

text \<open>
  The candidate set in the words of the specification: the union, over every enabled
  advertisement, of the names among its allowed nodes that exist in the node snapshot,
  are ready and are not excluded from balancers.
\<close>

definition eligibleNode :: "(string \<rightharpoonup> Node) \<Rightarrow> string \<Rightarrow> bool" where
  "eligibleNode nodes n =
     (case nodes n of
        None \<Rightarrow> False
      | Some node \<Rightarrow> isNodeReady node \<and> \<not> isNodeExcludedFromBalancers node)"

definition candidates :: "Pool \<Rightarrow> (string \<rightharpoonup> Node) \<Rightarrow> string set" where
  "candidates pool nodes =
     (\<Union>adv \<in> set (filter Enabled (UPnPAdvertisements pool)).
        {n \<in> fst ` set (Nodes adv). eligibleNode nodes n})"

lemma set_eligibleIn:
  "set (eligibleIn nodes entries eligible) =
     set eligible \<union> {n \<in> fst ` set entries. eligibleNode nodes n}"
proof (induction entries arbitrary: eligible)
  case Nil
  show ?case by simp
next
  case (Cons entry entries)
  obtain nodeName allowed where entry: "entry = (nodeName, allowed)" by (cases entry)
  show ?case
    unfolding entry using Cons.IH
    by (auto simp: eligibleNode_def split: option.splits)
qed

lemma set_eligibleOver:
  "set (eligibleOver nodes advs eligible) =
     set eligible \<union> (\<Union>adv \<in> set (filter Enabled advs).
        {n \<in> fst ` set (Nodes adv). eligibleNode nodes n})"
proof (induction advs arbitrary: eligible)
  case Nil
  show ?case by simp
next
  case (Cons adv advs)
  show ?case
    using Cons.IH [of eligible] Cons.IH [of "eligibleIn nodes (Nodes adv) eligible"]
    by (auto simp: set_eligibleIn)
qed

lemma sorted_getEligibleNodes: "sorted (getEligibleNodes pool nodes)"
  unfolding getEligibleNodes_def Let_def
  by (rule sortOuter_sorted) (simp add: sortedUpTo_def)

lemma set_getEligibleNodes: "set (getEligibleNodes pool nodes) = candidates pool nodes"
proof -
  have "set (getEligibleNodes pool nodes) = set (eligibleOver nodes (UPnPAdvertisements pool) [])"
    unfolding getEligibleNodes_def Let_def by (rule mset_eq_setD) (rule sortOuter_mset)
  then show ?thesis by (simp add: set_eligibleOver candidates_def)
qed

lemma hd_sorted_Min:
  fixes xs :: "string list"
  assumes "sorted xs" and "xs \<noteq> []"
  shows "hd xs = Min (set xs)"
proof -
  obtain x rest where xs: "xs = x # rest" using assms(2) by (cases xs) auto
  have "Min (set xs) = x"
    using assms(1) unfolding xs by (intro Min_eqI) auto
  then show ?thesis by (simp add: xs)
qed

lemma nodeMatchesAdvertisements_iff:
  "nodeMatchesAdvertisements me advs \<longleftrightarrow> (\<exists>adv\<in>set advs. Enabled adv \<and> nodeAllowed adv me)"
  by (induction advs) auto

lemma nodeAllowed_member:
  assumes "\<forall>(n, allowed)\<in>set (Nodes adv). allowed" and "me \<in> fst ` set (Nodes adv)"
  shows "nodeAllowed adv me"
proof -
  from assms(2) obtain v where "map_of (Nodes adv) me = Some v"
    by (metis map_of_eq_None_iff not_Some_eq)
  moreover from this have "(me, v) \<in> set (Nodes adv)" by (rule map_of_SomeD)
  ultimately show ?thesis using assms(1) by (auto simp: nodeAllowed_def)
qed

text \<open>
  C2. For every pool and node snapshot (the allowed-nodes maps holding only \<open>true\<close>, as a
  set of names does), \<open>getEligibleNodes\<close> returns the candidates in ascending order, so
  there is no owner exactly when the candidate set is empty, and otherwise the elected
  owner, the first name, is the lexicographically smallest candidate. For a service
  that is marked for UPnP and has an active endpoint, \<open>ShouldAnnounce\<close> answers owner
  (the empty string) iff the local node is that smallest candidate.
\<close>

theorem owner_is_smallest_candidate:
  assumes "list_all (\<lambda>adv. list_all (\<lambda>(n, allowed). allowed) (Nodes adv)) (UPnPAdvertisements pool)"
  shows "sorted (getEligibleNodes pool nodes) \<and>
         set (getEligibleNodes pool nodes) = candidates pool nodes \<and>
         (getEligibleNodes pool nodes = [] \<longleftrightarrow> candidates pool nodes = {}) \<and>
         (candidates pool nodes \<noteq> {} \<longrightarrow>
            hd (getEligibleNodes pool nodes) = Min (candidates pool nodes)) \<and>
         (ShouldAnnounce c pool svc activeEndpoints nodes = [] \<longleftrightarrow>
            isUPnPEnabled svc \<and> activeEndpoints \<and> candidates pool nodes \<noteq> {} \<and>
            myNode c = Min (candidates pool nodes))"
proof -
  let ?e = "getEligibleNodes pool nodes"
  let ?C = "candidates pool nodes"
  have s: "sorted ?e" by (rule sorted_getEligibleNodes)
  have c: "set ?e = ?C" by (rule set_getEligibleNodes)
  have empty: "?e = [] \<longleftrightarrow> ?C = {}" using c by auto
  have least: "hd ?e = Min ?C" if "?C \<noteq> {}"
    using hd_sorted_Min [OF s] that empty c by simp
  have fin: "finite ?C" using c by (metis List.finite_set)
  have gates: "poolSupportsUPnP pool \<and> nodeMatchesUPnPAdvertisements c pool"
    if ne: "?C \<noteq> {}" and me: "myNode c = Min ?C"
  proof -
    have "myNode c \<in> ?C" using Min_in [OF fin ne] me by simp
    then obtain adv where adv: "adv \<in> set (UPnPAdvertisements pool)" "Enabled adv"
      "myNode c \<in> fst ` set (Nodes adv)"
      by (auto simp: candidates_def)
    have "\<forall>(n, allowed)\<in>set (Nodes adv). allowed"
      using assms adv(1) by (auto simp: list_all_iff)
    then have "nodeAllowed adv (myNode c)"
      using adv(3) by (rule nodeAllowed_member)
    then have "nodeMatchesUPnPAdvertisements c pool"
      using adv(1,2) by (auto simp: nodeMatchesUPnPAdvertisements_def nodeMatchesAdvertisements_iff)
    moreover have "poolSupportsUPnP pool"
      using adv(1) by (cases "UPnPAdvertisements pool") (auto simp: poolSupportsUPnP_def)
    ultimately show ?thesis by simp
  qed
  have verdict: "ShouldAnnounce c pool svc activeEndpoints nodes = [] \<longleftrightarrow>
      isUPnPEnabled svc \<and> activeEndpoints \<and> ?C \<noteq> {} \<and> myNode c = Min ?C"
  proof (cases ?e)
    case Nil
    then have "?C = {}" using empty by simp
    with Nil show ?thesis by (simp add: ShouldAnnounce_def)
  next
    case (Cons first others)
    then have ne: "?C \<noteq> {}" using empty by simp
    have first: "first = Min ?C" using least [OF ne] Cons by simp
    show ?thesis
      using Cons ne first gates [OF ne] by (auto simp: ShouldAnnounce_def)
  qed
  show ?thesis using s c empty least verdict by blast
qed

theorem owner_is_smallest_candidate_witness:
  "list_all (\<lambda>adv. list_all (\<lambda>(n, allowed). allowed) (Nodes adv)) (UPnPAdvertisements homePool) \<and>
   getEligibleNodes homePool clusterNodes = [''node-b'', ''node-b'', ''node-c''] \<and>
   candidates homePool clusterNodes = {''node-b'', ''node-c''} \<and>
   hd (getEligibleNodes homePool clusterNodes) = Min (candidates homePool clusterNodes) \<and>
   isUPnPEnabled webService \<and> myNode controllerB = Min (candidates homePool clusterNodes) \<and>
   ShouldAnnounce controllerB homePool webService True clusterNodes = []"
proof -
  have h: "list_all (\<lambda>adv. list_all (\<lambda>(n, allowed). allowed) (Nodes adv)) (UPnPAdvertisements homePool)"
    by (simp add: homePool_def)
  have "eligibleOver clusterNodes (UPnPAdvertisements homePool) [] =
          [''node-c'', ''node-b'', ''node-b'']"
    by code_simp
  moreover have "sortOuter 0 [''node-c'', ''node-b'', ''node-b''] = [''node-b'', ''node-b'', ''node-c'']"
    by (simp add: sortOuter.simps sortInner.simps)
  ultimately have e: "getEligibleNodes homePool clusterNodes = [''node-b'', ''node-b'', ''node-c'']"
    by (simp add: getEligibleNodes_def)
  have m: "myNode controllerB = ''node-b''"
    by (simp add: controllerB_def)
  note t = owner_is_smallest_candidate [OF h, of clusterNodes controllerB webService True]
  from t have t2: "set (getEligibleNodes homePool clusterNodes) = candidates homePool clusterNodes"
    by (rule conjunct1 [OF conjunct2])
  from t have t4: "candidates homePool clusterNodes \<noteq> {} \<longrightarrow>
      hd (getEligibleNodes homePool clusterNodes) = Min (candidates homePool clusterNodes)"
    by (rule conjunct1 [OF conjunct2 [OF conjunct2 [OF conjunct2]]])
  from t have t5: "ShouldAnnounce controllerB homePool webService True clusterNodes = [] \<longleftrightarrow>
      isUPnPEnabled webService \<and> True \<and> candidates homePool clusterNodes \<noteq> {} \<and>
      myNode controllerB = Min (candidates homePool clusterNodes)"
    by (rule conjunct2 [OF conjunct2 [OF conjunct2 [OF conjunct2]]])
  have c: "candidates homePool clusterNodes = {''node-b'', ''node-c''}"
    unfolding t2 [symmetric] e by simp
  have ne: "candidates homePool clusterNodes \<noteq> {}"
    unfolding c by (rule insert_not_empty)
  have hd: "hd (getEligibleNodes homePool clusterNodes) = Min (candidates homePool clusterNodes)"
    using t4 ne by (rule mp)
  have least: "Min (candidates homePool clusterNodes) = ''node-b''"
    unfolding hd [symmetric] e by (rule list.sel(1))
  have me: "myNode controllerB = Min (candidates homePool clusterNodes)"
    unfolding least by (rule m)
  have owner: "ShouldAnnounce controllerB homePool webService True clusterNodes = []"
    unfolding t5 using enabled_webService ne me by (intro conjI TrueI)
  show ?thesis
    using h e c hd enabled_webService me owner by (intro conjI)
qed

subsection \<open>Enumerating the mappings of the device\<close>




lemma loop_step:
  assumes "selected c = Some k" and "replyEntry dev (sent log) (entryAction k index) = Inr e"
    and "\<not> index + 1 > 1000"
  shows "GetPortMappings_loop dev ParseIP c index found log =
           GetPortMappings_loop dev ParseIP c (index + 1) (collect ParseIP e found)
             (log @ [Dev (entryAction k index)])"
  using assms by (subst GetPortMappings_loop.simps) simp

lemma loop_fault:
  assumes "selected c = Some k" and "replyEntry dev (sent log) (entryAction k index) = Inl err"
  shows "snd (GetPortMappings_loop dev ParseIP c index found log) = log @ [Dev (entryAction k index)]"
  using assms by (subst GetPortMappings_loop.simps) simp

lemma loop_limit:
  assumes "selected c = Some k" and "replyEntry dev (sent log) (entryAction k index) = Inr e"
    and "index + 1 > 1000"
  shows "snd (GetPortMappings_loop dev ParseIP c index found log) = log @ [Dev (entryAction k index)]"
  using assms by (subst GetPortMappings_loop.simps) simp

text \<open>
  The entry queries for the indexes from \<open>i\<close> up to \<open>n - 1\<close>, and what it means that a loop
  started at index \<open>i0\<close> stops after the query for index \<open>n - 1\<close>: no query before the last
  was answered with an error, and the last one was, unless it was the query for index 1000.
\<close>

definition asked :: "wan_client \<Rightarrow> nat \<Rightarrow> nat \<Rightarrow> action list" where
  "asked k i n = map (entryAction k) [i..<n]"

definition stopsAt :: "device \<Rightarrow> wan_client \<Rightarrow> action list \<Rightarrow> nat \<Rightarrow> nat \<Rightarrow> bool" where
  "stopsAt dev k history i0 n =
     (i0 < n \<and> n \<le> 1001 \<and>
      (\<forall>i. i0 \<le> i \<and> Suc i < n \<longrightarrow>
         \<not> isl (replyEntry dev (history @ asked k i0 i) (entryAction k i))) \<and>
      (n = 1001 \<or> isl (replyEntry dev (history @ asked k i0 (n - 1)) (entryAction k (n - 1)))))"

lemma asked_same: "asked k i i = []"
  by (simp add: asked_def)

lemma asked_first: "i < n \<Longrightarrow> asked k i n = entryAction k i # asked k (Suc i) n"
  by (simp add: asked_def upt_conv_Cons)

lemma stopsAt_now:
  assumes "i0 \<le> 1000" and "i0 = 1000 \<or> isl (replyEntry dev history (entryAction k i0))"
  shows "stopsAt dev k history i0 (Suc i0)"
  using assms by (auto simp: stopsAt_def asked_same)

lemma stopsAt_later:
  assumes "\<not> isl (replyEntry dev history (entryAction k i0))"
    and "stopsAt dev k (history @ [entryAction k i0]) (Suc i0) n"
  shows "stopsAt dev k history i0 n"
proof -
  have n: "Suc i0 < n" "n \<le> 1001" using assms(2) by (simp_all add: stopsAt_def)
  have hist: "history @ asked k i0 i = (history @ [entryAction k i0]) @ asked k (Suc i0) i"
    if "i0 < i" for i
    using that by (simp add: asked_first)
  have before: "\<not> isl (replyEntry dev (history @ asked k i0 i) (entryAction k i))"
    if "i0 \<le> i \<and> Suc i < n" for i
  proof (cases "i = i0")
    case True
    then show ?thesis using assms(1) by (simp add: asked_same)
  next
    case False
    with that have "i0 < i" "Suc i0 \<le> i \<and> Suc i < n" by simp_all
    then show ?thesis using assms(2) unfolding stopsAt_def hist [OF \<open>i0 < i\<close>] by blast
  qed
  have "i0 < n - 1" using n(1) by simp
  then have last: "n = 1001 \<or> isl (replyEntry dev (history @ asked k i0 (n - 1)) (entryAction k (n - 1)))"
    using assms(2) unfolding stopsAt_def hist [OF \<open>i0 < n - 1\<close>] by blast
  show ?thesis
    unfolding stopsAt_def using n before last by auto
qed

lemma loop_queries:
  assumes "selected c = Some k" and "index \<le> 1000"
  shows "\<exists>n. stopsAt dev k (sent log) index n \<and>
           snd (GetPortMappings_loop dev ParseIP c index found log) = log @ map Dev (asked k index n)"
  using assms
proof (induction dev ParseIP c index found log rule: GetPortMappings_loop.induct)
  case (1 dev ParseIP c index found log)
  let ?q = "entryAction k index"
  have one: "log @ map Dev (asked k index (Suc index)) = log @ [Dev ?q]"
    by (simp add: asked_def)
  show ?case
  proof (cases "replyEntry dev (sent log) ?q")
    case (Inl err)
    have "stopsAt dev k (sent log) index (Suc index)"
    proof (rule stopsAt_now)
      show "index \<le> 1000" by (rule "1.prems"(2))
      show "index = 1000 \<or> isl (replyEntry dev (sent log) ?q)" using Inl by simp
    qed
    moreover have "snd (GetPortMappings_loop dev ParseIP c index found log) =
                   log @ map Dev (asked k index (Suc index))"
      unfolding one using "1.prems"(1) Inl by (rule loop_fault)
    ultimately show ?thesis by (intro exI conjI)
  next
    case (Inr e)
    show ?thesis
    proof (cases "index + 1 > 1000")
      case True
      have "stopsAt dev k (sent log) index (Suc index)"
      proof (rule stopsAt_now)
        show "index \<le> 1000" by (rule "1.prems"(2))
        show "index = 1000 \<or> isl (replyEntry dev (sent log) ?q)"
          using True "1.prems"(2) by simp
      qed
      moreover have "snd (GetPortMappings_loop dev ParseIP c index found log) =
                     log @ map Dev (asked k index (Suc index))"
        unfolding one using "1.prems"(1) Inr True by (rule loop_limit)
      ultimately show ?thesis by (intro exI conjI)
    next
      case False
      let ?log = "log @ [Dev ?q]"
      have step: "GetPortMappings_loop dev ParseIP c index found log =
                  GetPortMappings_loop dev ParseIP c (index + 1) (collect ParseIP e found) ?log"
        using "1.prems"(1) Inr False by (rule loop_step)
      have next_ok: "index + 1 \<le> 1000" using False by simp
      have "\<exists>n. stopsAt dev k (sent ?log) (index + 1) n \<and>
              snd (GetPortMappings_loop dev ParseIP c (index + 1) (collect ParseIP e found) ?log) =
                ?log @ map Dev (asked k (index + 1) n)"
        using "1.prems"(1) Inr False "1.prems"(1) next_ok by (rule "1.IH")
      then obtain n where n1: "stopsAt dev k (sent ?log) (index + 1) n"
        and n2: "snd (GetPortMappings_loop dev ParseIP c (index + 1) (collect ParseIP e found) ?log) =
           ?log @ map Dev (asked k (index + 1) n)"
        by (elim exE conjE)
      have s: "sent ?log = sent log @ [?q]" by (simp add: sent_append)
      have later: "stopsAt dev k (sent log @ [?q]) (Suc index) n"
        using n1 unfolding s by simp
      have notl: "\<not> isl (replyEntry dev (sent log) ?q)" using Inr by simp
      have st: "stopsAt dev k (sent log) index n"
        using notl later by (rule stopsAt_later)
      have "index < n" using later by (simp add: stopsAt_def)
      then have "asked k index n = ?q # asked k (index + 1) n"
        by (simp add: asked_def upt_conv_Cons)
      then have "?log @ map Dev (asked k (index + 1) n) = log @ map Dev (asked k index n)"
        by simp
      then have "snd (GetPortMappings_loop dev ParseIP c index found log) =
                 log @ map Dev (asked k index n)"
        unfolding step n2 .
      with st show ?thesis by (intro exI conjI)
    qed
  qed
qed

text \<open>
  C8. Bounded enumeration. \<open>GetPortMappings\<close> is a total function, so it returns for every
  device. With a library handle it sends the entry queries for the indexes
  \<open>0, 1, ..., n - 1\<close> and nothing else, where \<open>n\<close> is at most 1001: the index is compared with
  the safety limit 1000 after its increment, so the indexes run up to 1000. Every query
  before the last was answered with an entry, so the first error reply, the end-of-list
  fault among them, ends the loop, and the loop ends only at an error reply or after the
  query for index 1000. Without a handle nothing is sent.
\<close>

theorem bounded_enumeration:
  "(case selected c of
      None \<Rightarrow> GetPortMappings dev ParseIP c log = (Inl ErrNoClient, log)
    | Some k \<Rightarrow>
        (\<exists>n. 1 \<le> n \<and> n \<le> 1001 \<and>
           snd (GetPortMappings dev ParseIP c log) = log @ map Dev (asked k 0 n) \<and>
           (\<forall>i. Suc i < n \<longrightarrow>
              \<not> isl (replyEntry dev (sent log @ asked k 0 i) (entryAction k i))) \<and>
           (n = 1001 \<or> isl (replyEntry dev (sent log @ asked k 0 (n - 1)) (entryAction k (n - 1))))))"
proof (cases "selected c")
  case None
  have "GetPortMappings dev ParseIP c log = (Inl ErrNoClient, log)"
    unfolding GetPortMappings_def using None by (subst GetPortMappings_loop.simps) simp
  with None show ?thesis by simp
next
  case (Some k)
  have "\<exists>n. stopsAt dev k (sent log) 0 n \<and>
          snd (GetPortMappings_loop dev ParseIP c 0 [] log) = log @ map Dev (asked k 0 n)"
    using Some by (rule loop_queries) simp
  then obtain n where n1: "stopsAt dev k (sent log) 0 n"
    and n2: "snd (GetPortMappings dev ParseIP c log) = log @ map Dev (asked k 0 n)"
    unfolding GetPortMappings_def by (elim exE conjE)
  have "1 \<le> n \<and> n \<le> 1001 \<and>
        snd (GetPortMappings dev ParseIP c log) = log @ map Dev (asked k 0 n) \<and>
        (\<forall>i. Suc i < n \<longrightarrow> \<not> isl (replyEntry dev (sent log @ asked k 0 i) (entryAction k i))) \<and>
        (n = 1001 \<or> isl (replyEntry dev (sent log @ asked k 0 (n - 1)) (entryAction k (n - 1))))"
    using n1 n2 unfolding stopsAt_def by simp
  then have "\<exists>n. 1 \<le> n \<and> n \<le> 1001 \<and>
        snd (GetPortMappings dev ParseIP c log) = log @ map Dev (asked k 0 n) \<and>
        (\<forall>i. Suc i < n \<longrightarrow> \<not> isl (replyEntry dev (sent log @ asked k 0 i) (entryAction k i))) \<and>
        (n = 1001 \<or> isl (replyEntry dev (sent log @ asked k 0 (n - 1)) (entryAction k (n - 1))))"
    by (rule exI)
  with Some show ?thesis by simp
qed

text \<open>A device that never reports the end of the list is asked 1001 times.\<close>

theorem bounded_enumeration_witness:
  "selected routerClient = Some router \<and>
   snd (GetPortMappings endlessDevice knownAddress routerClient []) = map Dev (asked router 0 1001) \<and>
   length (snd (GetPortMappings endlessDevice knownAddress routerClient [])) = 1001"
proof -
  have r: "\<not> isl (replyEntry endlessDevice history a)" for history a
    by (simp add: endlessDevice_def)
  have "\<exists>n. 1 \<le> n \<and> n \<le> 1001 \<and>
      snd (GetPortMappings endlessDevice knownAddress routerClient []) = [] @ map Dev (asked router 0 n) \<and>
      (\<forall>i. Suc i < n \<longrightarrow>
         \<not> isl (replyEntry endlessDevice (sent [] @ asked router 0 i) (entryAction router i))) \<and>
      (n = 1001 \<or> isl (replyEntry endlessDevice (sent [] @ asked router 0 (n - 1))
                         (entryAction router (n - 1))))"
    using bounded_enumeration [where c = routerClient and dev = endlessDevice and ParseIP = knownAddress
        and log = "[]"]
    unfolding selected_routerClient by simp
  then obtain n where
    q: "snd (GetPortMappings endlessDevice knownAddress routerClient []) = [] @ map Dev (asked router 0 n)"
    and e: "n = 1001 \<or> isl (replyEntry endlessDevice (sent [] @ asked router 0 (n - 1))
                         (entryAction router (n - 1)))"
    by (elim exE conjE)
  have n: "n = 1001" using e r by blast
  have s: "snd (GetPortMappings endlessDevice knownAddress routerClient []) = map Dev (asked router 0 1001)"
    using q unfolding n by simp
  have "length (map Dev (asked router 0 1001)) = 1001"
    by (simp add: asked_def)
  with s selected_routerClient show ?thesis by simp
qed

subsection \<open>Classifying device faults\<close>








text \<open>The delete and the enumeration against a device that answers with one error.\<close>

lemma missing_texts:
  "missingEntry noSuchEntry" "\<not> missingEntry noSuchEntryWorded"
  "missingEntry indexInvalid" "\<not> missingEntry indexInvalidWorded"
  "missingEntry actionFailed" "\<not> missingEntry unreachable" "\<not> missingEntry conflict"
  by code_simp+

lemma delete_failingWith:
  "DeletePortMapping (failingWith err) routerClient [] 80 ''tcp'' =
     (if missingEntry err then None else Some (ErrDeletePortMapping (message err)),
      [Dev (DeletePortMappingAction router [] 80 ''TCP'')])"
proof -
  have u: "ToUpper ''tcp'' = ''TCP''" by code_simp
  show ?thesis
    by (simp add: DeletePortMapping_def Let_def u selected_routerClient failingWith_def
        deleteAction_def)
qed



text \<open>
  C6, amended. For every external port, every protocol that is \<open>tcp\<close> or \<open>udp\<close> up to case
  and a client with a library handle, \<open>DeletePortMapping\<close> sends one delete action; it
  returns nil when the device reports no error or an error whose text contains
  \<open>NoSuchEntryInArray\<close> or \<open>SpecifiedArrayIndexInvalid\<close>, and the error of the failed delete
  with the device's text for every other error.
\<close>

theorem delete_outcome:
  assumes "equal_fold p ''tcp'' \<or> equal_fold p ''udp''" and "selected c = Some k"
  shows "DeletePortMapping dev c log externalPort p =
     ((case replyDelete dev (sent log) (deleteAction k externalPort p) of
         None \<Rightarrow> None
       | Some err \<Rightarrow>
           if Contains (message err) ''NoSuchEntryInArray'' \<or>
              Contains (message err) ''SpecifiedArrayIndexInvalid''
           then None else Some (ErrDeletePortMapping (message err))),
      log @ [Dev (deleteAction k externalPort p)])"
proof -
  have "ToUpper p = ''TCP'' \<or> ToUpper p = ''UDP''"
    using assms(1) by (simp add: ToUpper_tcp ToUpper_udp)
  then show ?thesis
    using assms(2)
    by (auto simp: DeletePortMapping_def Let_def missingEntry_def split: option.splits)
qed

theorem delete_outcome_witness:
  "(equal_fold ''tcp'' ''tcp'' \<or> equal_fold ''tcp'' ''udp'') \<and>
   selected routerClient = Some router \<and>
   DeletePortMapping (failingWith noSuchEntry) routerClient [] 80 ''tcp'' =
     (None, [Dev (DeletePortMappingAction router [] 80 ''TCP'')]) \<and>
   DeletePortMapping (failingWith unreachable) routerClient [] 80 ''tcp'' =
     (Some (ErrDeletePortMapping ''connection refused''),
      [Dev (DeletePortMappingAction router [] 80 ''TCP'')])"
proof -
  have p: "equal_fold ''tcp'' ''tcp'' \<or> equal_fold ''tcp'' ''udp''"
    by (simp add: equal_fold_def)
  have a: "deleteAction router 80 ''tcp'' = DeletePortMappingAction router [] 80 ''TCP''"
    by code_simp
  have m: "Contains (message noSuchEntry) ''NoSuchEntryInArray''"
    "\<not> Contains (message unreachable) ''NoSuchEntryInArray''"
    "\<not> Contains (message unreachable) ''SpecifiedArrayIndexInvalid''"
    "message unreachable = ''connection refused''"
    by code_simp+
  have r: "replyDelete (failingWith err) history a = Some err" for err history a
    by (simp add: failingWith_def)
  show ?thesis
    using p selected_routerClient m
      delete_outcome [OF p selected_routerClient, of "failingWith noSuchEntry" "[]" 80]
      delete_outcome [OF p selected_routerClient, of "failingWith unreachable" "[]" 80]
    unfolding a r by simp
qed

text \<open>
  The claim as stated fails for the index fault 713, which is not the no-such-entry
  fault: the delete returns nil and not an error.
\<close>

theorem delete_other_fault_counterexample:
  "fault_code indexInvalid = Some 713 \<and>
   \<not> Contains (message indexInvalid) ''NoSuchEntryInArray'' \<and>
   DeletePortMapping (failingWith indexInvalid) routerClient [] 80 ''tcp'' =
     (None, [Dev (DeletePortMappingAction router [] 80 ''TCP'')])"
proof -
  have "\<not> Contains (message indexInvalid) ''NoSuchEntryInArray''" by code_simp
  then show ?thesis
    unfolding delete_failingWith using missing_texts(3) by (simp add: indexInvalid_def)
qed

subsection \<open>Discovery\<close>

lemma updateExternalIP_keeps_handle:
  "\<exists>e c' log'. updateExternalIP dev ParseIP c log = (e, c', log') \<and>
     client1 c' = client1 c \<and> client2 c' = client2 c \<and> version c' = version c"
  by (auto simp: updateExternalIP_def split: option.splits sum.splits)

lemma New_version2:
  "\<exists>c' log'. New dev ParseIP (Discovered (first # others)) found1 log = (Inr c', log') \<and>
     version c' = 2 \<and> client2 c' = Some first \<and> selected c' = Some first"
proof -
  let ?c = "\<lparr>client1 = None, client2 = Some first, version = 2, externalIP = None\<rparr>"
  obtain e c' log' where u: "updateExternalIP dev ParseIP ?c log = (e, c', log')"
    and k: "client1 c' = client1 ?c" "client2 c' = client2 ?c" "version c' = version ?c"
    using updateExternalIP_keeps_handle [of dev ParseIP ?c log] by blast
  have "New dev ParseIP (Discovered (first # others)) found1 log = (Inr c', log')"
    using u by (simp add: New_def discoverIGD2_def)
  moreover have "version c' = 2 \<and> client2 c' = Some first \<and> selected c' = Some first"
    using k by (simp add: selected_def)
  ultimately show ?thesis by blast
qed

lemma New_version1:
  assumes "found2 = Discovered [] \<or> found2 = DiscoveryFailed why"
  shows "\<exists>c' log'. New dev ParseIP found2 (Discovered (first # others)) log = (Inr c', log') \<and>
     version c' = 1 \<and> client1 c' = Some first \<and> selected c' = Some first"
proof -
  let ?c = "\<lparr>client1 = Some first, client2 = None, version = 1, externalIP = None\<rparr>"
  obtain e c' log' where u: "updateExternalIP dev ParseIP ?c log = (e, c', log')"
    and k: "client1 c' = client1 ?c" "client2 c' = client2 ?c" "version c' = version ?c"
    using updateExternalIP_keeps_handle [of dev ParseIP ?c log] by blast
  have "New dev ParseIP found2 (Discovered (first # others)) log = (Inr c', log')"
    using u assms by (auto simp: New_def discoverIGD2_def discoverIGD1_def)
  moreover have "version c' = 1 \<and> client1 c' = Some first \<and> selected c' = Some first"
    using k by (simp add: selected_def)
  ultimately show ?thesis by blast
qed

text \<open>
  C5, amended. Discovery selects the first handle in the order in which the library call
  returned them, for either protocol version: \<open>discoverIGD2\<close> and \<open>discoverIGD1\<close> store the
  head of the list, and \<open>New\<close> returns a client with that handle selected, of version 2
  when the version-2 call found a device, and of version 1 when that call failed or found
  none and the version-1 call found one.
\<close>

theorem discovery_takes_first:
  "discoverIGD2 (Discovered (first # others)) c = (None, c\<lparr>client2 := Some first, version := 2\<rparr>) \<and>
   discoverIGD1 (Discovered (first # others)) c = (None, c\<lparr>client1 := Some first, version := 1\<rparr>) \<and>
   (\<exists>c' log'. New dev ParseIP (Discovered (first # others)) found1 log = (Inr c', log') \<and>
      version c' = 2 \<and> client2 c' = Some first \<and> selected c' = Some first) \<and>
   (\<exists>c' log'. New dev ParseIP (Discovered []) (Discovered (first # others)) log = (Inr c', log') \<and>
      version c' = 1 \<and> client1 c' = Some first \<and> selected c' = Some first) \<and>
   (\<exists>c' log'. New dev ParseIP (DiscoveryFailed why) (Discovered (first # others)) log = (Inr c', log') \<and>
      version c' = 1 \<and> client1 c' = Some first \<and> selected c' = Some first)"
proof -
  have a: "discoverIGD2 (Discovered (first # others)) c = (None, c\<lparr>client2 := Some first, version := 2\<rparr>)"
    by (simp add: discoverIGD2_def)
  have b: "discoverIGD1 (Discovered (first # others)) c = (None, c\<lparr>client1 := Some first, version := 1\<rparr>)"
    by (simp add: discoverIGD1_def)
  show ?thesis
    using a b New_version2 [of dev ParseIP first others found1 log]
      New_version1 [of "Discovered []" why dev ParseIP first others log]
      New_version1 [of "DiscoveryFailed why" why dev ParseIP first others log]
    by (intro conjI) simp_all
qed

text \<open>
  The claim as stated fails: of two gateways the one with the larger location is selected
  when it answers first, and the selection changes with the order of the answers.
\<close>

theorem discovery_order_counterexample:
  "Location nearGateway < Location farGateway \<and>
   client2 (snd (discoverIGD2 (Discovered [farGateway, nearGateway]) unavailableClient)) =
     Some farGateway \<and>
   client2 (snd (discoverIGD2 (Discovered [nearGateway, farGateway]) unavailableClient)) =
     Some nearGateway \<and>
   client1 (snd (discoverIGD1 (Discovered [farGateway, nearGateway]) unavailableClient)) =
     Some farGateway \<and>
   client1 (snd (discoverIGD1 (Discovered [nearGateway, farGateway]) unavailableClient)) =
     Some nearGateway \<and>
   farGateway \<noteq> nearGateway"
  by (simp add: discoverIGD2_def discoverIGD1_def nearGateway_def farGateway_def)

end
